theory Spec2Isabelle
  imports Main
begin

section \<open>JavaScript strings\<close>

text \<open>
  A JavaScript string is a sequence of UTF-16 code units. A code unit is modelled by its
  numeric value; \<open>str\<close> turns an ASCII literal into such a sequence.
\<close>

type_synonym jschar = nat
type_synonym jsstring = "jschar list"

definition str :: "string \<Rightarrow> jsstring" where
  "str s = map of_char s"

text \<open>The warning sign that opens every message: U+26A0 U+FE0F.\<close>

definition warn :: jsstring where
  "warn = [9888, 65039]"

text \<open>\<^verbatim>\<open>s.split('\n')\<close>: never empty, one more piece than there are line feeds.\<close>

fun split_nl :: "jsstring \<Rightarrow> jsstring list" where
  "split_nl [] = [[]]"
| "split_nl (c # cs) =
     (if c = 10 then [] # split_nl cs
      else (case split_nl cs of [] \<Rightarrow> [[c]] | l # ls \<Rightarrow> (c # l) # ls))"

text \<open>\<^verbatim>\<open>xs.join('\n')\<close>: the empty array gives the empty string.\<close>

fun join_nl :: "jsstring list \<Rightarrow> jsstring" where
  "join_nl [] = []"
| "join_nl [x] = x"
| "join_nl (x # y # ys) = x @ 10 # join_nl (y # ys)"

definition startsWith :: "jsstring \<Rightarrow> jsstring \<Rightarrow> bool" where
  "startsWith s t = (take (length t) s = t)"

definition endsWith :: "jsstring \<Rightarrow> jsstring \<Rightarrow> bool" where
  "endsWith s t = (length t \<le> length s \<and> drop (length s - length t) s = t)"

fun includes_str :: "jsstring \<Rightarrow> jsstring \<Rightarrow> bool" where
  "includes_str [] t = (t = [])"
| "includes_str (c # cs) t = (startsWith (c # cs) t \<or> includes_str cs t)"

section \<open>Regular expressions\<close>

text \<open>
  The patterns of the program are regular expression literals. They are kept as data and
  run by a backtracking matcher that follows the ECMAScript semantics: a matcher state is
  the code unit before the current position, the rest of the input and the captures;
  \<open>rmatch r st\<close> lists the states in which \<open>r\<close> can end when started in \<open>st\<close>, in the
  order in which backtracking tries them, so that the head of the list is the match that
  JavaScript reports.
\<close>

type_synonym captures = "nat \<Rightarrow> jsstring option"
type_synonym mstate = "jschar option \<times> jsstring \<times> captures"

datatype rx =
    Eps
  | Cls "jschar \<Rightarrow> bool"
  | Seq rx rx
  | Alt rx rx
  | Star rx
  | LazyStar rx
  | Opt rx
  | Grp nat rx
  | NotAhead rx
  | BolM
  | Bol
  | Eol

fun remaining :: "mstate \<Rightarrow> nat" where
  "remaining (pv, s, g) = length s"

definition lineTerminator :: "jschar \<Rightarrow> bool" where
  "lineTerminator c = (c = 10 \<or> c = 13 \<or> c = 8232 \<or> c = 8233)"

text \<open>
  \<open>Star\<close> and \<open>Opt\<close> are the greedy quantifiers \<^verbatim>\<open>*\<close> and \<^verbatim>\<open>?\<close>, \<open>LazyStar\<close> is \<^verbatim>\<open>*?\<close>.
  As in ECMAScript's RepeatMatcher, an iteration that consumes nothing is rejected; at the
  end of the input no iteration can consume anything. \<open>BolM\<close> is \<^verbatim>\<open>^\<close> under the
  \<^verbatim>\<open>m\<close> flag, \<open>Bol\<close> and \<open>Eol\<close> are \<^verbatim>\<open>^\<close> and \<^verbatim>\<open>$\<close> without it. \<open>NotAhead\<close> is \<^verbatim>\<open>(?!...)\<close>.
  No quantified part of a pattern of this program holds a capture group that could be
  entered twice, so the reset of inner captures at the start of an iteration is left out.
\<close>

fun rmatch :: "rx \<Rightarrow> mstate \<Rightarrow> mstate list" where
  "rmatch Eps st = [st]"
| "rmatch (Cls p) (pv, s, g) =
     (case s of [] \<Rightarrow> [] | c # cs \<Rightarrow> if p c then [(Some c, cs, g)] else [])"
| "rmatch (Seq a b) st = concat (map (rmatch b) (rmatch a st))"
| "rmatch (Alt a b) st = rmatch a st @ rmatch b st"
| "rmatch (Star a) (pv, [], g) = [(pv, [], g)]"
| "rmatch (Star a) (pv, c # cs, g) =
     concat (map (\<lambda>st'. if remaining st' < Suc (length cs) then rmatch (Star a) st' else [])
                 (rmatch a (pv, c # cs, g)))
     @ [(pv, c # cs, g)]"
| "rmatch (LazyStar a) (pv, [], g) = [(pv, [], g)]"
| "rmatch (LazyStar a) (pv, c # cs, g) =
     (pv, c # cs, g)
     # concat (map (\<lambda>st'. if remaining st' < Suc (length cs) then rmatch (LazyStar a) st' else [])
                   (rmatch a (pv, c # cs, g)))"
| "rmatch (Opt a) st = filter (\<lambda>st'. remaining st' < remaining st) (rmatch a st) @ [st]"
| "rmatch (Grp k a) (pv, s, g) =
     map (\<lambda>(pv', s', g'). (pv', s', g'(k \<mapsto> take (length s - length s') s)))
         (rmatch a (pv, s, g))"
| "rmatch (NotAhead a) st = (if rmatch a st = [] then [st] else [])"
| "rmatch BolM (pv, s, g) =
     (case pv of None \<Rightarrow> [(pv, s, g)]
      | Some c \<Rightarrow> if lineTerminator c then [(pv, s, g)] else [])"
| "rmatch Bol (pv, s, g) = (if pv = None then [(pv, s, g)] else [])"
| "rmatch Eol (pv, s, g) = (if s = [] then [(pv, s, g)] else [])"

text \<open>\<^verbatim>\<open>r+\<close> is one iteration followed by \<^verbatim>\<open>r*\<close>.\<close>

definition Plus :: "rx \<Rightarrow> rx" where
  "Plus r = Seq r (Star r)"

text \<open>A sequence of terms.\<close>

fun seqs :: "rx list \<Rightarrow> rx" where
  "seqs [] = Eps"
| "seqs (r # rs) = Seq r (seqs rs)"

text \<open>A literal, matched code unit by code unit.\<close>

definition chr :: "jschar \<Rightarrow> rx" where
  "chr c = Cls (\<lambda>x. x = c)"

fun lit :: "jsstring \<Rightarrow> rx" where
  "lit [] = Eps"
| "lit (c # cs) = Seq (chr c) (lit cs)"

text \<open>
  A literal under the \<^verbatim>\<open>i\<close> flag. Canonicalize maps a code unit to its upper case, and
  never maps a code unit of 128 or more to an ASCII one, so an ASCII letter of a pattern
  matches its two ASCII cases and nothing else.
\<close>

definition upper :: "jschar \<Rightarrow> jschar" where
  "upper c = (if 97 \<le> c \<and> c \<le> 122 then c - 32 else c)"

definition ichr :: "jschar \<Rightarrow> rx" where
  "ichr c = Cls (\<lambda>x. upper x = upper c)"

fun ilit :: "jsstring \<Rightarrow> rx" where
  "ilit [] = Eps"
| "ilit (c # cs) = Seq (ichr c) (ilit cs)"

text \<open>The character classes \<^verbatim>\<open>\s\<close>, \<^verbatim>\<open>\d\<close>, \<^verbatim>\<open>\w\<close>, \<^verbatim>\<open>.\<close> and \<^verbatim>\<open>[\s\S]\<close>.\<close>

definition space :: "jschar \<Rightarrow> bool" where
  "space c =
     (c = 9 \<or> c = 10 \<or> c = 11 \<or> c = 12 \<or> c = 13 \<or> c = 32 \<or> c = 160 \<or> c = 5760
      \<or> (8192 \<le> c \<and> c \<le> 8202) \<or> c = 8232 \<or> c = 8233 \<or> c = 8239 \<or> c = 8287
      \<or> c = 12288 \<or> c = 65279)"

definition digit :: "jschar \<Rightarrow> bool" where
  "digit c = (48 \<le> c \<and> c \<le> 57)"

definition alpha :: "jschar \<Rightarrow> bool" where
  "alpha c = ((97 \<le> c \<and> c \<le> 122) \<or> (65 \<le> c \<and> c \<le> 90))"

definition word :: "jschar \<Rightarrow> bool" where
  "word c = (alpha c \<or> digit c \<or> c = 95)"

definition dot :: "jschar \<Rightarrow> bool" where
  "dot c = (\<not> lineTerminator c)"

definition anychar :: "jschar \<Rightarrow> bool" where
  "anychar c = True"

text \<open>
  \<open>exec\<close> is RegExp.prototype.exec on a pattern without the \<^verbatim>\<open>g\<close> flag: the leftmost
  position at which the pattern matches, with the number of code units skipped, the
  matched text and the captures.
\<close>

fun exec :: "rx \<Rightarrow> jschar option \<Rightarrow> jsstring \<Rightarrow> (nat \<times> jsstring \<times> captures) option" where
  "exec r pv s =
     (case rmatch r (pv, s, Map.empty) of
        (pv', s', g) # _ \<Rightarrow> Some (0, take (length s - length s') s, g)
      | [] \<Rightarrow>
         (case s of [] \<Rightarrow> None
          | c # cs \<Rightarrow>
             (case exec r (Some c) cs of None \<Rightarrow> None
              | Some (n, m, g) \<Rightarrow> Some (Suc n, m, g))))"

definition test :: "rx \<Rightarrow> jsstring \<Rightarrow> bool" where
  "test r s = (exec r None s \<noteq> None)"

text \<open>
  \<open>matchAll\<close> is \<^verbatim>\<open>[...s.matchAll(r)]\<close> for a pattern with the \<^verbatim>\<open>g\<close> flag: the matches from
  left to right, each search starting where the match before ended, and one code unit
  further after an empty match.
\<close>

fun matchAll :: "rx \<Rightarrow> jschar option \<Rightarrow> jsstring \<Rightarrow> (jsstring \<times> captures) list" where
  "matchAll r pv s =
     (case rmatch r (pv, s, Map.empty) of
        (pv', s', g) # _ \<Rightarrow>
          (take (length s - length s') s, g)
          # (if length s' < length s then matchAll r pv' s'
             else (case s of [] \<Rightarrow> [] | c # cs \<Rightarrow> matchAll r (Some c) cs))
      | [] \<Rightarrow> (case s of [] \<Rightarrow> [] | c # cs \<Rightarrow> matchAll r (Some c) cs))"

text \<open>
  \<^verbatim>\<open>s.replace(r, '')\<close> for a pattern without the \<^verbatim>\<open>g\<close> flag: the first match is cut out.
\<close>

definition remove_first :: "rx \<Rightarrow> jsstring \<Rightarrow> jsstring" where
  "remove_first r s =
     (case exec r None s of None \<Rightarrow> s
      | Some (n, m, g) \<Rightarrow> take n s @ drop (n + length m) s)"

section \<open>The migration checker\<close>

text \<open>\<^verbatim>\<open>content.split('\n').map(line => line.replace(/^\+/, '')).join('\n')\<close>\<close>

definition cleanContent :: "jsstring \<Rightarrow> jsstring" where
  "cleanContent content =
     join_nl (map (remove_first (seqs [Bol, chr 43])) (split_nl content))"

text \<open>\<^verbatim>\<open>/DO\s*\$\$\s*BEGIN[\s\S]*END\s*\$\$/i\<close>\<close>

definition wrapperRegex :: rx where
  "wrapperRegex =
     seqs [ilit (str ''DO''), Star (Cls space), lit (str ''$$''), Star (Cls space),
           ilit (str ''BEGIN''), Star (Cls anychar), ilit (str ''END''), Star (Cls space),
           lit (str ''$$'')]"

text \<open>\<^verbatim>\<open>/BEGIN([\s\S]*?)END/i\<close>\<close>

definition blockRegex :: rx where
  "blockRegex = seqs [ilit (str ''BEGIN''), Grp 1 (LazyStar (Cls anychar)), ilit (str ''END'')]"

text \<open>\<^verbatim>\<open>cleanContent.match(/BEGIN([\s\S]*?)END/i)?.[1] || ''\<close>\<close>

definition blockContent :: "jsstring \<Rightarrow> jsstring" where
  "blockContent clean =
     (case exec blockRegex None clean of None \<Rightarrow> []
      | Some (n, m, g) \<Rightarrow> (case g 1 of None \<Rightarrow> [] | Some b \<Rightarrow> b))"

text \<open>
  The four risky patterns:
  \<^verbatim>\<open>/CREATE\s+TABLE\s+(?!.*?IF\s+NOT\s+EXISTS)(\w+)/i\<close>,
  \<^verbatim>\<open>/ALTER\s+TABLE\s+(?!.*?IF\s+(?:NOT\s+)?EXISTS)(\w+)/i\<close>,
  \<^verbatim>\<open>/INSERT\s+INTO\s+(?!.*?(?:WHERE|IF)\s+NOT\s+EXISTS)(\w+)/i\<close>,
  \<^verbatim>\<open>/DROP\s+TABLE\s+(?!.*?IF\s+EXISTS)(\w+)/i\<close>.
\<close>

definition createPattern :: rx where
  "createPattern =
     seqs [ilit (str ''CREATE''), Plus (Cls space), ilit (str ''TABLE''), Plus (Cls space),
           NotAhead (seqs [LazyStar (Cls dot), ilit (str ''IF''), Plus (Cls space),
                           ilit (str ''NOT''), Plus (Cls space), ilit (str ''EXISTS'')]),
           Grp 1 (Plus (Cls word))]"

definition alterPattern :: rx where
  "alterPattern =
     seqs [ilit (str ''ALTER''), Plus (Cls space), ilit (str ''TABLE''), Plus (Cls space),
           NotAhead (seqs [LazyStar (Cls dot), ilit (str ''IF''), Plus (Cls space),
                           Opt (seqs [ilit (str ''NOT''), Plus (Cls space)]),
                           ilit (str ''EXISTS'')]),
           Grp 1 (Plus (Cls word))]"

definition insertPattern :: rx where
  "insertPattern =
     seqs [ilit (str ''INSERT''), Plus (Cls space), ilit (str ''INTO''), Plus (Cls space),
           NotAhead (seqs [LazyStar (Cls dot), Alt (ilit (str ''WHERE'')) (ilit (str ''IF'')),
                           Plus (Cls space), ilit (str ''NOT''), Plus (Cls space),
                           ilit (str ''EXISTS'')]),
           Grp 1 (Plus (Cls word))]"

definition dropPattern :: rx where
  "dropPattern =
     seqs [ilit (str ''DROP''), Plus (Cls space), ilit (str ''TABLE''), Plus (Cls space),
           NotAhead (seqs [LazyStar (Cls dot), ilit (str ''IF''), Plus (Cls space),
                           ilit (str ''EXISTS'')]),
           Grp 1 (Plus (Cls word))]"

definition createMessage :: jsstring where
  "createMessage = warn @ str '' Use `CREATE TABLE IF NOT EXISTS` for idempotent table creation''"

definition alterMessage :: jsstring where
  "alterMessage = warn @ str '' Use `ALTER TABLE IF EXISTS` for idempotent table alterations''"

definition insertMessage :: jsstring where
  "insertMessage =
     warn @ str '' Consider adding `WHERE NOT EXISTS` check for idempotent data insertion''"

definition dropMessage :: jsstring where
  "dropMessage = warn @ str '' Use `DROP TABLE IF EXISTS` for idempotent table removal''"

definition riskyPatterns :: "(rx \<times> jsstring) list" where
  "riskyPatterns =
     [(createPattern, createMessage), (alterPattern, alterMessage),
      (insertPattern, insertMessage), (dropPattern, dropMessage)]"

text \<open>\<^verbatim>\<open>/IF\s+(?:NOT\s+)?EXISTS/i\<close>\<close>

definition ifCheckRegex :: rx where
  "ifCheckRegex =
     seqs [ilit (str ''IF''), Plus (Cls space), Opt (seqs [ilit (str ''NOT''), Plus (Cls space)]),
           ilit (str ''EXISTS'')]"

definition wrapperMessage :: jsstring where
  "wrapperMessage = warn @ str '' Migration should be wrapped in `DO $$ BEGIN ... END $$` block''"

definition hasProperWrapper :: "jsstring \<Rightarrow> bool" where
  "hasProperWrapper clean = test wrapperRegex clean"

text \<open>The loop over the risky patterns; \<open>issues\<close> is the array the loop pushes to.\<close>

fun riskyLoop :: "jsstring \<Rightarrow> (rx \<times> jsstring) list \<Rightarrow> jsstring list \<Rightarrow> jsstring list" where
  "riskyLoop block [] issues = issues"
| "riskyLoop block ((pattern, message) # rest) issues =
     riskyLoop block rest
       (if test pattern block
        then (if \<not> test ifCheckRegex block then issues @ [message] else issues)
        else issues)"

definition validateDatabaseMigration :: "jsstring \<Rightarrow> jsstring list" where
  "validateDatabaseMigration content =
     (let clean = cleanContent content in
      if \<not> hasProperWrapper clean then [wrapperMessage]
      else riskyLoop (blockContent clean) riskyPatterns [])"

section \<open>Errors and loops\<close>

text \<open>
  Two exceptions can arise in the analysis: the TypeError of a method call on
  \<^verbatim>\<open>undefined\<close>, and the SyntaxError of \<^verbatim>\<open>new RegExp\<close> on a malformed pattern.
  \<open>for_of\<close> is a \<^verbatim>\<open>for (const x of xs)\<close> loop whose body updates the array \<open>issues\<close> or
  throws.
\<close>

datatype error = SyntaxError | TypeError

fun for_of ::
  "('a \<Rightarrow> jsstring list \<Rightarrow> error + jsstring list) \<Rightarrow> 'a list \<Rightarrow> jsstring list
   \<Rightarrow> error + jsstring list" where
  "for_of body [] issues = Inr issues"
| "for_of body (x # xs) issues =
     (case body x issues of Inl e \<Rightarrow> Inl e | Inr issues' \<Rightarrow> for_of body xs issues')"

text \<open>
  A capture that did not take part in the match is \<^verbatim>\<open>undefined\<close>. \<open>tpl\<close> is its
  interpolation into a template literal, \<open>orElse v d\<close> is \<^verbatim>\<open>v || d\<close> interpolated.
\<close>

fun tpl :: "jsstring option \<Rightarrow> jsstring" where
  "tpl None = str ''undefined''"
| "tpl (Some v) = v"

fun orElse :: "jsstring option \<Rightarrow> jsstring \<Rightarrow> jsstring" where
  "orElse None d = d"
| "orElse (Some v) d = (if v = [] then d else v)"

section \<open>The version-pinning matchers\<close>

text \<open>\<^verbatim>\<open>/"([^"]+)":\s*"([^"]+)"/g\<close>\<close>

definition packageRegex :: rx where
  "packageRegex =
     seqs [chr 34, Grp 1 (Plus (Cls (\<lambda>c. c \<noteq> 34))), chr 34, chr 58, Star (Cls space),
           chr 34, Grp 2 (Plus (Cls (\<lambda>c. c \<noteq> 34))), chr 34]"

definition nodeMessage :: "jsstring \<Rightarrow> jsstring \<Rightarrow> jsstring" where
  "nodeMessage packageName version =
     warn @ str '' Package `'' @ packageName @ str ''` should use exact version instead of `''
     @ version @ str ''`. Use exact version pinning for reproducible builds.''"

definition validateNodePackage :: "jsstring \<Rightarrow> error + jsstring list" where
  "validateNodePackage content =
     for_of (\<lambda>(m, g) issues.
        case g 2 of None \<Rightarrow> Inl TypeError
        | Some version \<Rightarrow>
            if startsWith version (str ''^'') \<or> startsWith version (str ''~'')
               \<or> version = str ''*''
            then Inr (issues @ [nodeMessage (tpl (g 1)) version])
            else Inr issues)
       (matchAll packageRegex None content) []"

text \<open>\<^verbatim>\<open>/^([^=><~\s]+)\s*((?:[<>=~]{1,2}|\^)?\s*[0-9][^;\s]*)?/gm\<close>\<close>

definition requirementRegex :: rx where
  "requirementRegex =
     seqs [BolM,
           Grp 1 (Plus (Cls (\<lambda>c. c \<noteq> 61 \<and> c \<noteq> 62 \<and> c \<noteq> 60 \<and> c \<noteq> 126 \<and> \<not> space c))),
           Star (Cls space),
           Opt (Grp 2 (seqs
             [Opt (Alt (seqs [Cls (\<lambda>c. c = 60 \<or> c = 62 \<or> c = 61 \<or> c = 126),
                              Opt (Cls (\<lambda>c. c = 60 \<or> c = 62 \<or> c = 61 \<or> c = 126))])
                       (chr 94)),
              Star (Cls space), Cls digit, Star (Cls (\<lambda>c. c \<noteq> 59 \<and> \<not> space c))]))]"

definition pythonMessage :: "jsstring \<Rightarrow> jsstring \<Rightarrow> jsstring" where
  "pythonMessage packageName version =
     warn @ str '' Python package `'' @ packageName
     @ str ''` should use exact version (==) instead of `'' @ version @ str ''`.''"

definition validatePythonPackage :: "jsstring \<Rightarrow> error + jsstring list" where
  "validatePythonPackage content =
     for_of (\<lambda>(m, g) issues.
        if (case g 2 of None \<Rightarrow> True
            | Some version \<Rightarrow>
                version = [] \<or> includes_str version (str ''~='')
                \<or> includes_str version (str ''>'') \<or> includes_str version (str ''<''))
        then Inr (issues @ [pythonMessage (tpl (g 1)) (orElse (g 2) (str ''unspecified''))])
        else Inr issues)
       (matchAll requirementRegex None content) []"

text \<open>\<^verbatim>\<open>/gem\s+['"]([^'"]+)['"]\s*,\s*['"]([^'"]+)['"]/g\<close>\<close>

definition quote :: "jschar \<Rightarrow> bool" where
  "quote c = (c = 39 \<or> c = 34)"

definition gemRegex :: rx where
  "gemRegex =
     seqs [lit (str ''gem''), Plus (Cls space), Cls quote,
           Grp 1 (Plus (Cls (\<lambda>c. \<not> quote c))), Cls quote, Star (Cls space), chr 44,
           Star (Cls space), Cls quote, Grp 2 (Plus (Cls (\<lambda>c. \<not> quote c))), Cls quote]"

definition rubyMessage :: "jsstring \<Rightarrow> jsstring \<Rightarrow> jsstring" where
  "rubyMessage gemName version =
     warn @ str '' Ruby gem `'' @ gemName @ str ''` should use exact version instead of `''
     @ version @ str ''`.''"

definition validateRubyPackage :: "jsstring \<Rightarrow> error + jsstring list" where
  "validateRubyPackage content =
     for_of (\<lambda>(m, g) issues.
        case g 2 of None \<Rightarrow> Inl TypeError
        | Some version \<Rightarrow>
            if includes_str version (str ''~>'') \<or> includes_str version (str ''>'')
               \<or> includes_str version (str ''<'')
            then Inr (issues @ [rubyMessage (tpl (g 1)) version])
            else Inr issues)
       (matchAll gemRegex None content) []"

text \<open>
  Gradle: \<^verbatim>\<open>/([^:]+):([^:]+):([^'\s]+)/g\<close>; Maven: \<^verbatim>\<open>/<version>([^<]+)<\/version>/g\<close>
\<close>

definition gradleRegex :: rx where
  "gradleRegex =
     seqs [Grp 1 (Plus (Cls (\<lambda>c. c \<noteq> 58))), chr 58, Grp 2 (Plus (Cls (\<lambda>c. c \<noteq> 58))), chr 58,
           Grp 3 (Plus (Cls (\<lambda>c. c \<noteq> 39 \<and> \<not> space c)))]"

definition mavenRegex :: rx where
  "mavenRegex =
     seqs [lit (str ''<version>''), Grp 1 (Plus (Cls (\<lambda>c. c \<noteq> 60))), lit (str ''</version>'')]"

definition gradleMessage :: "jsstring \<Rightarrow> jsstring \<Rightarrow> jsstring \<Rightarrow> jsstring" where
  "gradleMessage grp artifact version =
     warn @ str '' Gradle dependency `'' @ grp @ str '':'' @ artifact
     @ str ''` should use exact version instead of `'' @ version @ str ''`.''"

definition mavenMessage :: "jsstring \<Rightarrow> jsstring" where
  "mavenMessage version =
     warn @ str '' Maven dependency should use exact version instead of `'' @ version
     @ str ''`.''"

definition gradleLoop ::
  "(jsstring \<times> captures) list \<Rightarrow> jsstring list \<Rightarrow> error + jsstring list" where
  "gradleLoop gradleMatches issues =
     for_of (\<lambda>(m, g) issues.
        case g 3 of None \<Rightarrow> Inl TypeError
        | Some version \<Rightarrow>
            if includes_str version (str ''+'') \<or> endsWith version (str ''.+'')
               \<or> includes_str version (str ''latest'')
            then Inr (issues @ [gradleMessage (tpl (g 1)) (tpl (g 2)) version])
            else Inr issues)
       gradleMatches issues"

definition mavenLoop ::
  "(jsstring \<times> captures) list \<Rightarrow> jsstring list \<Rightarrow> error + jsstring list" where
  "mavenLoop mavenMatches issues =
     for_of (\<lambda>(m, g) issues.
        case g 1 of None \<Rightarrow> Inl TypeError
        | Some version \<Rightarrow>
            if includes_str version (str ''SNAPSHOT'') \<or> includes_str version (str ''RELEASE'')
               \<or> includes_str version (str ''LATEST'')
            then Inr (issues @ [mavenMessage version])
            else Inr issues)
       mavenMatches issues"

definition validateJavaPackage :: "jsstring \<Rightarrow> error + jsstring list" where
  "validateJavaPackage content =
     (let gradleMatches = matchAll gradleRegex None content;
          mavenMatches = matchAll mavenRegex None content
      in case gradleLoop gradleMatches [] of Inl e \<Rightarrow> Inl e
         | Inr issues \<Rightarrow> mavenLoop mavenMatches issues)"

text \<open>The tag tests \<^verbatim>\<open>/^\d+$/\<close>, \<^verbatim>\<open>/^\d+\.\d+$/\<close> and \<^verbatim>\<open>/^[a-zA-Z]+$/\<close>.\<close>

definition digitsRegex :: rx where
  "digitsRegex = seqs [Bol, Plus (Cls digit), Eol]"

definition majorMinorRegex :: rx where
  "majorMinorRegex = seqs [Bol, Plus (Cls digit), chr 46, Plus (Cls digit), Eol]"

definition alphaRegex :: rx where
  "alphaRegex = seqs [Bol, Plus (Cls alpha), Eol]"

text \<open>Kubernetes: \<^verbatim>\<open>/image:\s*([^:\s]+)(?::([^\s]+))?/g\<close>\<close>

definition k8sImageRegex :: rx where
  "k8sImageRegex =
     seqs [lit (str ''image:''), Star (Cls space),
           Grp 1 (Plus (Cls (\<lambda>c. c \<noteq> 58 \<and> \<not> space c))),
           Opt (seqs [chr 58, Grp 2 (Plus (Cls (\<lambda>c. \<not> space c)))])]"

text \<open>
  The test both manifest matchers apply to a tag:
  \<^verbatim>\<open>!tag || tag === 'latest' || /^\d+$/.test(tag) || /^\d+\.\d+$/.test(tag)\<close>
\<close>

fun looseTag :: "jsstring option \<Rightarrow> bool" where
  "looseTag None = True"
| "looseTag (Some tag) =
     (tag = [] \<or> tag = str ''latest'' \<or> test digitsRegex tag \<or> test majorMinorRegex tag)"

definition k8sMessage :: "jsstring \<Rightarrow> jsstring \<Rightarrow> jsstring" where
  "k8sMessage img tag =
     warn @ str '' Kubernetes container `'' @ img
     @ str ''` should use specific version tag instead of `'' @ tag @ str ''`.''"

definition validateKubernetesManifest :: "jsstring \<Rightarrow> error + jsstring list" where
  "validateKubernetesManifest content =
     for_of (\<lambda>(m, g) issues.
        if looseTag (g 2)
        then Inr (issues @ [k8sMessage (tpl (g 1)) (orElse (g 2) (str ''latest''))])
        else Inr issues)
       (matchAll k8sImageRegex None content) []"

text \<open>Compose: \<^verbatim>\<open>/image:\s*['"]?([^:\s'"]+)(?::([^\s'"]+))?['"]?/g\<close>\<close>

definition composeImageRegex :: rx where
  "composeImageRegex =
     seqs [lit (str ''image:''), Star (Cls space), Opt (Cls quote),
           Grp 1 (Plus (Cls (\<lambda>c. c \<noteq> 58 \<and> \<not> space c \<and> \<not> quote c))),
           Opt (seqs [chr 58, Grp 2 (Plus (Cls (\<lambda>c. \<not> space c \<and> \<not> quote c)))]),
           Opt (Cls quote)]"

definition composeMessage :: "jsstring \<Rightarrow> jsstring \<Rightarrow> jsstring" where
  "composeMessage img tag =
     warn @ str '' Docker Compose service `'' @ img
     @ str ''` should use specific version tag instead of `'' @ tag @ str ''`.''"

definition validateDockerCompose :: "jsstring \<Rightarrow> error + jsstring list" where
  "validateDockerCompose content =
     for_of (\<lambda>(m, g) issues.
        if looseTag (g 2)
        then Inr (issues @ [composeMessage (tpl (g 1)) (orElse (g 2) (str ''latest''))])
        else Inr issues)
       (matchAll composeImageRegex None content) []"

text \<open>
  Dockerfile: the lines \<^verbatim>\<open>/^FROM\s+[^\n]+/gm\<close>, and in each of them
  \<^verbatim>\<open>/FROM\s+([^:\s]+)(?::([^\s]+))?/\<close>.
\<close>

definition fromLineRegex :: rx where
  "fromLineRegex = seqs [BolM, lit (str ''FROM''), Plus (Cls space), Plus (Cls (\<lambda>c. c \<noteq> 10))]"

definition fromRegex :: rx where
  "fromRegex =
     seqs [lit (str ''FROM''), Plus (Cls space),
           Grp 1 (Plus (Cls (\<lambda>c. c \<noteq> 58 \<and> \<not> space c))),
           Opt (seqs [chr 58, Grp 2 (Plus (Cls (\<lambda>c. \<not> space c)))])]"

text \<open>\<^verbatim>\<open>cleanContent.match(/^FROM\s+[^\n]+/gm) || []\<close>\<close>

definition fromLines :: "jsstring \<Rightarrow> jsstring list" where
  "fromLines clean = map fst (matchAll fromLineRegex None clean)"

definition noTagMessage :: "jsstring \<Rightarrow> jsstring" where
  "noTagMessage img =
     warn @ str '' Docker image `'' @ img
     @ str ''` has no version tag specified. Use specific version tags for reproducible builds.''"

definition nonSpecificMessage :: "jsstring \<Rightarrow> jsstring \<Rightarrow> jsstring" where
  "nonSpecificMessage img tag =
     warn @ str '' Docker image `'' @ img @ str '':'' @ tag
     @ str ''` uses non-specific tag. Use complete version numbers (e.g., '' @ [39]
     @ str ''20.5.0-alpine3.18'' @ [39] @ str '').''"

definition nonSpecificTag :: "jsstring \<Rightarrow> bool" where
  "nonSpecificTag tag =
     (tag = str ''latest'' \<or> tag = str ''stable'' \<or> tag = str ''rolling'' \<or> tag = str ''alpine''
      \<or> test digitsRegex tag \<or> test majorMinorRegex tag \<or> test alphaRegex tag)"

definition validateDockerfile :: "jsstring \<Rightarrow> error + jsstring list" where
  "validateDockerfile content =
     for_of (\<lambda>fromLine issues.
        case exec fromRegex None fromLine of None \<Rightarrow> Inr issues
        | Some (n, m, g) \<Rightarrow>
            (case g 2 of None \<Rightarrow> Inr (issues @ [noTagMessage (tpl (g 1))])
             | Some tag \<Rightarrow>
                 if tag = [] then Inr (issues @ [noTagMessage (tpl (g 1))])
                 else if nonSpecificTag tag
                 then Inr (issues @ [nonSpecificMessage (tpl (g 1)) tag])
                 else Inr issues))
       (fromLines (cleanContent content)) []"

text \<open>
  GitHub Actions: \<^verbatim>\<open>/uses:\s+([^@]+)@([^\s]+)/g\<close>, and the shape
  \<^verbatim>\<open>/^v\d+\.\d+\.\d+$/\<close> of an exact version.
\<close>

definition actionRegex :: rx where
  "actionRegex =
     seqs [lit (str ''uses:''), Plus (Cls space), Grp 1 (Plus (Cls (\<lambda>c. c \<noteq> 64))), chr 64,
           Grp 2 (Plus (Cls (\<lambda>c. \<not> space c)))]"

definition exactVersionRegex :: rx where
  "exactVersionRegex =
     seqs [Bol, chr 118, Plus (Cls digit), chr 46, Plus (Cls digit), chr 46, Plus (Cls digit),
           Eol]"

definition actionMessage :: "jsstring \<Rightarrow> jsstring \<Rightarrow> jsstring" where
  "actionMessage action version =
     warn @ str '' GitHub Action `'' @ action
     @ str ''` should use exact version (e.g., v1.2.3) instead of `'' @ version
     @ str ''`. Use specific versions for reproducible workflows.''"

definition validateGitHubActions :: "jsstring \<Rightarrow> error + jsstring list" where
  "validateGitHubActions diff =
     for_of (\<lambda>(m, g) issues.
        case g 2 of None \<Rightarrow> Inl TypeError
        | Some version \<Rightarrow>
            if version = str ''main'' \<or> version = str ''master''
               \<or> \<not> test exactVersionRegex version
            then Inr (issues @ [actionMessage (tpl (g 1)) version])
            else Inr issues)
       (matchAll actionRegex None diff) []"

section \<open>The parsed diff\<close>

text \<open>
  The diff parser hands over files, their chunks and the changes of each chunk. The
  \<^verbatim>\<open>content\<close> of a change is the line of the diff, marker included.
\<close>

datatype change_type = Add | Del | Normal

record Change =
  type :: change_type
  content :: jsstring

record Chunk =
  changes :: "Change list"

record File =
  to :: "jsstring option"
  chunks :: "Chunk list"

text \<open>
  \<^verbatim>\<open>file.chunks.map(chunk => chunk.changes.filter(change => change.type === 'add' ||
  change.type === 'normal').map(change => change.content).join('\n')).join('\n')\<close>
\<close>

definition diffContent :: "File \<Rightarrow> jsstring" where
  "diffContent file =
     join_nl (map (\<lambda>chunk.
        join_nl (map content
          (filter (\<lambda>change. type change = Add \<or> type change = Normal) (changes chunk))))
       (chunks file))"

section \<open>The validator registries\<close>

record FileValidator =
  extensions :: "jsstring list"
  patterns :: "jsstring list"
  validate :: "jsstring \<Rightarrow> error + jsstring list"

text \<open>
  The two registries are objects of the module; \<^verbatim>\<open>Object.values\<close> lists their entries in
  the order in which they are written.
\<close>

record module_state =
  PACKAGE_VALIDATORS :: "(jsstring \<times> FileValidator) list"
  CONTAINER_VALIDATORS :: "(jsstring \<times> FileValidator) list"

definition Object_values :: "(jsstring \<times> FileValidator) list \<Rightarrow> FileValidator list" where
  "Object_values obj = map snd obj"

definition module_init :: module_state where
  "module_init =
     \<lparr> PACKAGE_VALIDATORS =
         [(str ''node'',
           \<lparr> extensions = [str ''package.json''], patterns = [str ''package.json''],
             validate = validateNodePackage \<rparr>),
          (str ''python'',
           \<lparr> extensions = [str ''.txt'', str ''.pip''],
             patterns = [str ''requirements.txt'', str ''requirements/*.txt'',
                         str ''requirements/**.txt''],
             validate = validatePythonPackage \<rparr>),
          (str ''ruby'',
           \<lparr> extensions = [str ''.gemfile'', str ''.gemspec''],
             patterns = [str ''Gemfile'', str ''Gemfile.lock''],
             validate = validateRubyPackage \<rparr>),
          (str ''java'',
           \<lparr> extensions = [str ''.gradle'', str ''.pom''],
             patterns = [str ''build.gradle'', str ''pom.xml''],
             validate = validateJavaPackage \<rparr>)],
       CONTAINER_VALIDATORS =
         [(str ''docker'',
           \<lparr> extensions = [str ''Dockerfile''],
             patterns = [str ''Dockerfile'', str ''**/Dockerfile'', str ''docker/Dockerfile''],
             validate = validateDockerfile \<rparr>),
          (str ''kubernetes'',
           \<lparr> extensions = [str ''.yaml'', str ''.yml''],
             patterns = [str ''k8s/*.y{a,}ml'', str ''kubernetes/*.y{a,}ml''],
             validate = validateKubernetesManifest \<rparr>),
          (str ''compose'',
           \<lparr> extensions = [str ''.yaml'', str ''.yml''],
             patterns = [str ''docker-compose.y{a,}ml''],
             validate = validateDockerCompose \<rparr>)] \<rparr>"

section \<open>The dispatcher\<close>

text \<open>
  \<^verbatim>\<open>pattern.match(file.to)\<close> is String.prototype.match with a string argument: the
  argument is compiled with \<^verbatim>\<open>new RegExp\<close> and searched for in the receiver. A source
  text without syntax characters is a literal, and \<^verbatim>\<open>.\<close> is any code unit but a line
  terminator. For the rest of the pattern grammar the compiler is the parameter
  \<open>compile\<close>, which gives the pattern or the SyntaxError.
\<close>

definition syntaxCharacter :: "jschar \<Rightarrow> bool" where
  "syntaxCharacter c = (c = 92 \<or> c \<in> set (str ''^$.*+?()[]{}|''))"

fun plainRegExp :: "jsstring \<Rightarrow> rx" where
  "plainRegExp [] = Eps"
| "plainRegExp (c # cs) = Seq (if c = 46 then Cls dot else chr c) (plainRegExp cs)"

definition RegExp_new :: "(jsstring \<Rightarrow> error + rx) \<Rightarrow> jsstring \<Rightarrow> error + rx" where
  "RegExp_new compile source =
     (if list_all (\<lambda>c. c = 46 \<or> \<not> syntaxCharacter c) source then Inr (plainRegExp source)
      else compile source)"

definition String_match ::
  "(jsstring \<Rightarrow> error + rx) \<Rightarrow> jsstring \<Rightarrow> jsstring \<Rightarrow> error + bool" where
  "String_match compile receiver regexp =
     (case RegExp_new compile regexp of Inl e \<Rightarrow> Inl e | Inr r \<Rightarrow> Inr (test r receiver))"

text \<open>\<^verbatim>\<open>validator.patterns.some(pattern => pattern.match(file.to!))\<close>\<close>

fun some_match ::
  "(jsstring \<Rightarrow> error + rx) \<Rightarrow> jsstring \<Rightarrow> jsstring list \<Rightarrow> error + bool" where
  "some_match compile path [] = Inr False"
| "some_match compile path (pattern # rest) =
     (case String_match compile pattern path of Inl e \<Rightarrow> Inl e
      | Inr True \<Rightarrow> Inr True
      | Inr False \<Rightarrow> some_match compile path rest)"

text \<open>
  \<^verbatim>\<open>validator.extensions.some(ext => file.to!.endsWith(ext)) ||
  validator.patterns.some(pattern => pattern.match(file.to!))\<close>
\<close>

definition applies ::
  "(jsstring \<Rightarrow> error + rx) \<Rightarrow> FileValidator \<Rightarrow> jsstring \<Rightarrow> error + bool" where
  "applies compile validator path =
     (if list_ex (\<lambda>ext. endsWith path ext) (extensions validator) then Inr True
      else some_match compile path (patterns validator))"

text \<open>One loop over the validators of a registry.\<close>

definition validatorLoop ::
  "(jsstring \<Rightarrow> error + rx) \<Rightarrow> jsstring \<Rightarrow> jsstring \<Rightarrow> FileValidator list \<Rightarrow> jsstring list
   \<Rightarrow> error + jsstring list" where
  "validatorLoop compile path blob validators issues =
     for_of (\<lambda>validator issues.
        case applies compile validator path of Inl e \<Rightarrow> Inl e
        | Inr False \<Rightarrow> Inr issues
        | Inr True \<Rightarrow>
            (case validate validator blob of Inl e \<Rightarrow> Inl e
             | Inr found \<Rightarrow> Inr (issues @ found)))
       validators issues"

text \<open>\<^verbatim>\<open>file.to.match(/\.(sql|migration)$/) || file.to.includes('migrations/')\<close>\<close>

definition migrationRegex :: rx where
  "migrationRegex = seqs [chr 46, Grp 1 (Alt (lit (str ''sql'')) (lit (str ''migration''))), Eol]"

definition isMigration :: "jsstring \<Rightarrow> bool" where
  "isMigration path = (test migrationRegex path \<or> includes_str path (str ''migrations/''))"

text \<open>The body of the loop over the files of the diff.\<close>

definition analyzeFile ::
  "(jsstring \<Rightarrow> error + rx) \<Rightarrow> module_state \<Rightarrow> File \<Rightarrow> jsstring list \<Rightarrow> error + jsstring list"
  where
  "analyzeFile compile \<sigma> file issues =
     (case to file of None \<Rightarrow> Inr issues
      | Some path \<Rightarrow>
          if path = [] \<or> path = str ''/dev/null'' then Inr issues
          else
            (case validatorLoop compile path (diffContent file)
                    (Object_values (PACKAGE_VALIDATORS \<sigma>)) issues of
               Inl e \<Rightarrow> Inl e
             | Inr issues1 \<Rightarrow>
                 (case validatorLoop compile path (diffContent file)
                         (Object_values (CONTAINER_VALIDATORS \<sigma>)) issues1 of
                    Inl e \<Rightarrow> Inl e
                  | Inr issues2 \<Rightarrow>
                      if isMigration path
                      then Inr (issues2 @ validateDatabaseMigration (diffContent file))
                      else Inr issues2)))"

text \<open>
  \<open>analyzeCode\<close> returns the issues, or the exception that ended it, together with the
  state of the module after the run.
\<close>

definition analyzeCode ::
  "(jsstring \<Rightarrow> error + rx) \<Rightarrow> module_state \<Rightarrow> File list
   \<Rightarrow> (error + jsstring list) \<times> module_state" where
  "analyzeCode compile \<sigma> parsedDiff = (for_of (analyzeFile compile \<sigma>) parsedDiff [], \<sigma>)"

section \<open>Captures that take part in every match\<close>

text \<open>\<open>sets_group r k\<close>: every match of \<open>r\<close> goes through capture group \<open>k\<close>.\<close>

fun sets_group :: "rx \<Rightarrow> nat \<Rightarrow> bool" where
  "sets_group (Grp j a) k = (j = k \<or> sets_group a k)"
| "sets_group (Seq a b) k = (sets_group a k \<or> sets_group b k)"
| "sets_group (Alt a b) k = (sets_group a k \<and> sets_group b k)"
| "sets_group r k = False"

section \<open>Notions used in the statements\<close>

text \<open>The added and context lines of a chunk, in their order.\<close>

definition keptLines :: "Chunk \<Rightarrow> jsstring list" where
  "keptLines chunk =
     map content (filter (\<lambda>change. type change = Add \<or> type change = Normal) (changes chunk))"

text \<open>A diff of one changed Dockerfile, and a file that the diff deletes.\<close>

definition sample_diff :: "File list" where
  "sample_diff =
     [\<lparr>to = Some (str ''Dockerfile''),
       chunks = [\<lparr>changes = [\<lparr>type = Del, content = str ''-FROM node:20.5.0''\<rparr>,
                              \<lparr>type = Add, content = str ''+FROM node:latest''\<rparr>]\<rparr>]\<rparr>]"

definition deleted_file :: File where
  "deleted_file =
     \<lparr>to = Some (str ''/dev/null''),
      chunks = [\<lparr>changes = [\<lparr>type = Del, content = str ''-FROM node:latest''\<rparr>]\<rparr>]\<rparr>"

text \<open>A compiler that rejects every pattern it is asked about.\<close>

definition reject :: "jsstring \<Rightarrow> error + rx" where
  "reject source = Inl SyntaxError"

text \<open>
  The warnings of the GitHub Actions matcher are the ones that open with
  \<^verbatim>\<open>GitHub Action `\<close> after the warning sign; \<open>clean\<close> issues hold none of them.
\<close>

definition actionWarning :: "jsstring \<Rightarrow> bool" where
  "actionWarning w = startsWith w (warn @ str '' GitHub Action `'')"

definition clean :: "jsstring list \<Rightarrow> bool" where
  "clean issues = (\<forall>w\<in>set issues. \<not> actionWarning w)"

text \<open>A diff that adds a floating action reference to a workflow file.\<close>

definition workflow_diff :: "File list" where
  "workflow_diff =
     [\<lparr>to = Some (str ''.github/workflows/ci.yml''),
       chunks = [\<lparr>changes =
         [\<lparr>type = Add, content = str ''+      - uses: actions/checkout@main''\<rparr>]\<rparr>]\<rparr>]"

text \<open>
  The lines a chunk gives to the blob: its added and context lines, and one empty line for
  a chunk that keeps none. \<open>blobOf\<close> is these lines, chunk after chunk, joined by line
  feeds.
\<close>

definition chunkLines :: "Chunk \<Rightarrow> jsstring list" where
  "chunkLines chunk = (if keptLines chunk = [] then [[]] else keptLines chunk)"

definition blobOf :: "File \<Rightarrow> jsstring" where
  "blobOf file = join_nl (concat (map chunkLines (chunks file)))"

text \<open>
  Two registries of one validator each, which applies to every path: the validators are
  arbitrary functions, so that what the dispatcher hands to them can be observed.
\<close>

definition probe ::
  "(jsstring \<Rightarrow> error + jsstring list) \<Rightarrow> (jsstring \<Rightarrow> error + jsstring list) \<Rightarrow> module_state"
  where
  "probe f1 f2 =
     \<lparr> PACKAGE_VALIDATORS = [(str ''first'', \<lparr> extensions = [[]], patterns = [], validate = f1 \<rparr>)],
       CONTAINER_VALIDATORS =
         [(str ''second'', \<lparr> extensions = [[]], patterns = [], validate = f2 \<rparr>)] \<rparr>"

text \<open>
  Two states of the module are the same at a blob when their registries list validators
  with the same extensions and patterns whose checks agree on that blob.
\<close>

definition answers ::
  "jsstring \<Rightarrow> FileValidator \<Rightarrow> jsstring list \<times> jsstring list \<times> (error + jsstring list)"
  where
  "answers blob v = (extensions v, patterns v, validate v blob)"

definition sameAt :: "jsstring \<Rightarrow> module_state \<Rightarrow> module_state \<Rightarrow> bool" where
  "sameAt blob \<sigma> \<sigma>' =
     (map (answers blob) (Object_values (PACKAGE_VALIDATORS \<sigma>))
        = map (answers blob) (Object_values (PACKAGE_VALIDATORS \<sigma>'))
      \<and> map (answers blob) (Object_values (CONTAINER_VALIDATORS \<sigma>))
        = map (answers blob) (Object_values (CONTAINER_VALIDATORS \<sigma>')))"

text \<open>
  A file of three chunks, the second of which only removes a line; its blob; a validator
  that returns the blob it was given, and one that throws on every other blob.
\<close>

definition gap_file :: File where
  "gap_file =
     \<lparr>to = Some (str ''notes.md''),
      chunks = [\<lparr>changes = [\<lparr>type = Normal, content = str '' a''\<rparr>,
                             \<lparr>type = Del, content = str ''-b''\<rparr>,
                             \<lparr>type = Add, content = str ''+c''\<rparr>]\<rparr>,
                \<lparr>changes = [\<lparr>type = Del, content = str ''-d''\<rparr>]\<rparr>,
                \<lparr>changes = [\<lparr>type = Add, content = str ''+e''\<rparr>,
                             \<lparr>type = Normal, content = str '' f''\<rparr>]\<rparr>]\<rparr>"

definition gap_blob :: jsstring where
  "gap_blob = str '' a'' @ 10 # str ''+c'' @ 10 # 10 # str ''+e'' @ 10 # str '' f''"

definition echo :: "jsstring \<Rightarrow> jsstring \<Rightarrow> error + jsstring list" where
  "echo tag blob = Inr [tag @ blob]"

definition guarded :: "jsstring \<Rightarrow> error + jsstring list" where
  "guarded blob = (if blob = gap_blob then echo (str ''1:'') blob else Inl TypeError)"

text \<open>
  The cleaning of a blob, told line by line: a line that opens with \<^verbatim>\<open>+\<close> loses it. A
  text holds a wrapper block when it holds \<^verbatim>\<open>DO\<close>, \<^verbatim>\<open>$$\<close>, \<^verbatim>\<open>BEGIN\<close>, any text, \<^verbatim>\<open>END\<close>
  and \<^verbatim>\<open>$$\<close> in this order, the keywords in any case, with nothing but white space
  between \<^verbatim>\<open>DO\<close> and \<^verbatim>\<open>$$\<close>, between \<^verbatim>\<open>$$\<close> and \<^verbatim>\<open>BEGIN\<close>, and between \<^verbatim>\<open>END\<close> and
  \<^verbatim>\<open>$$\<close>.
\<close>

definition stripPlus :: "jsstring \<Rightarrow> jsstring" where
  "stripPlus line = (case line of [] \<Rightarrow> [] | c # rest \<Rightarrow> if c = 43 then rest else line)"

definition wrapperBlock :: "jsstring \<Rightarrow> bool" where
  "wrapperBlock s =
     (\<exists>before d w1 w2 b inner e w3 after.
        s = before @ d @ w1 @ str ''$$'' @ w2 @ b @ inner @ e @ w3 @ str ''$$'' @ after
        \<and> map upper d = str ''DO'' \<and> list_all space w1 \<and> list_all space w2
        \<and> map upper b = str ''BEGIN'' \<and> map upper e = str ''END'' \<and> list_all space w3)"

text \<open>A migration whose wrapper opens on one added line and goes on on the next.\<close>

definition split_wrapper :: jsstring where
  "split_wrapper = str ''+DO'' @ 10 # str ''+$$ BEGIN END $$;''"

text \<open>
  A diff with a file named \<^verbatim>\<open>docker\<close>, and one with a Dockerfile in a directory named
  \<^verbatim>\<open>c++\<close>.
\<close>

definition stray_diff :: "File list" where
  "stray_diff =
     [\<lparr>to = Some (str ''docker''),
       chunks = [\<lparr>changes = [\<lparr>type = Add, content = str ''+FROM node:latest''\<rparr>]\<rparr>]\<rparr>]"

definition plus_diff :: "File list" where
  "plus_diff =
     [\<lparr>to = Some (str ''c++/Dockerfile''),
       chunks = [\<lparr>changes = [\<lparr>type = Add, content = str ''+FROM node:latest''\<rparr>]\<rparr>]\<rparr>]"

text \<open>
  One warning for each match of a pattern that fails the policy, in the order of the
  matches; the warning, if any, of a \<^verbatim>\<open>FROM\<close> line; a pom with a floating version and a
  Gradle dependency with one.
\<close>

definition warnings ::
  "(captures \<Rightarrow> bool) \<Rightarrow> (captures \<Rightarrow> jsstring) \<Rightarrow> rx \<Rightarrow> jsstring \<Rightarrow> jsstring list" where
  "warnings fails message r blob =
     map (\<lambda>(m, g). message g) (filter (\<lambda>(m, g). fails g) (matchAll r None blob))"

definition dockerWarning :: "jsstring \<Rightarrow> jsstring list" where
  "dockerWarning fromLine =
     (case exec fromRegex None fromLine of None \<Rightarrow> []
      | Some (n, m, g) \<Rightarrow>
          (case g 2 of None \<Rightarrow> [noTagMessage (tpl (g 1))]
           | Some tag \<Rightarrow>
               if tag = [] then [noTagMessage (tpl (g 1))]
               else if nonSpecificTag tag then [nonSpecificMessage (tpl (g 1)) tag]
               else []))"

definition maven_pom :: jsstring where
  "maven_pom = str ''<artifactId>demo</artifactId><version>1.0-SNAPSHOT</version>''"

definition gradle_build :: jsstring where
  "gradle_build = str ''com.acme:demo:1.+''"







section \<open>Positions, statement shapes and sample migrations\<close>

text \<open>The code unit before the position reached after reading \<open>u\<close>.\<close>

definition lastopt :: "jschar option \<Rightarrow> jsstring \<Rightarrow> jschar option" where
  "lastopt pv u = (if u = [] then pv else Some (last u))"

text \<open>Patterns without a capture group.\<close>

fun nogroup :: "rx \<Rightarrow> bool" where
  "nogroup (Grp k a) = False"
| "nogroup (Seq a b) = (nogroup a \<and> nogroup b)"
| "nogroup (Alt a b) = (nogroup a \<and> nogroup b)"
| "nogroup (Star a) = nogroup a"
| "nogroup (LazyStar a) = nogroup a"
| "nogroup (Opt a) = nogroup a"
| "nogroup r = True"

text \<open>
  The notions of the specification: the token \<^verbatim>\<open>IF NOT EXISTS\<close>, and the shape of each
  risky statement, which is the keyword pair followed by a name, without any lookahead.
  \<open>insertUnguarded\<close> is an \<^verbatim>\<open>INSERT INTO\<close> that no \<^verbatim>\<open>WHERE NOT EXISTS\<close> follows on its
  line.
\<close>

definition ifNotExistsRegex :: rx where
  "ifNotExistsRegex =
     seqs [ilit (str ''IF''), Plus (Cls space), ilit (str ''NOT''), Plus (Cls space),
           ilit (str ''EXISTS'')]"

definition createShape :: rx where
  "createShape =
     seqs [ilit (str ''CREATE''), Plus (Cls space), ilit (str ''TABLE''), Plus (Cls space),
           Grp 1 (Plus (Cls word))]"

definition alterShape :: rx where
  "alterShape =
     seqs [ilit (str ''ALTER''), Plus (Cls space), ilit (str ''TABLE''), Plus (Cls space),
           Grp 1 (Plus (Cls word))]"

definition insertShape :: rx where
  "insertShape =
     seqs [ilit (str ''INSERT''), Plus (Cls space), ilit (str ''INTO''), Plus (Cls space),
           Grp 1 (Plus (Cls word))]"

definition dropShape :: rx where
  "dropShape =
     seqs [ilit (str ''DROP''), Plus (Cls space), ilit (str ''TABLE''), Plus (Cls space),
           Grp 1 (Plus (Cls word))]"

definition insertUnguarded :: rx where
  "insertUnguarded =
     seqs [ilit (str ''INSERT''), Plus (Cls space), ilit (str ''INTO''), Plus (Cls space),
           NotAhead (seqs [LazyStar (Cls dot), ilit (str ''WHERE''), Plus (Cls space),
                           ilit (str ''NOT''), Plus (Cls space), ilit (str ''EXISTS'')]),
           Grp 1 (Plus (Cls word))]"

text \<open>A position of a text: the matcher state after \<open>u\<close>, before \<open>v\<close>, with no capture.\<close>

definition pos :: "jsstring \<Rightarrow> jsstring \<Rightarrow> mstate" where
  "pos u v = (lastopt None u, v, Map.empty)"











text \<open>Two migrations: an insertion guarded by \<^verbatim>\<open>WHERE NOT EXISTS\<close>, and a bare creation.\<close>

definition guarded_insert :: jsstring where
  "guarded_insert =
     str ''DO $$ BEGIN INSERT INTO t SELECT 1 WHERE NOT EXISTS (SELECT 1 FROM t); END $$;''"

definition unguarded_create :: jsstring where
  "unguarded_create = str ''+DO $$ BEGIN CREATE TABLE orders (id int); END $$;''"


section \<open>Runs and words of a pattern\<close>

text \<open>The states a greedy run over a class goes through: the longest run first.\<close>

fun runs :: "(jschar \<Rightarrow> bool) \<Rightarrow> mstate \<Rightarrow> mstate list" where
  "runs p (pv, [], g) = [(pv, [], g)]"
| "runs p (pv, c # cs, g) = (if p c then runs p (Some c, cs, g) else []) @ [(pv, c # cs, g)]"

text \<open>
  The patterns without groups, anchors and lookahead whose stars range over a class, and
  the texts each of them matches.
\<close>

fun simple :: "rx \<Rightarrow> bool" where
  "simple Eps = True"
| "simple (Cls p) = True"
| "simple (Seq a b) = (simple a \<and> simple b)"
| "simple (Alt a b) = (simple a \<and> simple b)"
| "simple (Star (Cls p)) = True"
| "simple (LazyStar (Cls p)) = True"
| "simple (Opt a) = simple a"
| "simple r = False"

fun lang :: "rx \<Rightarrow> jsstring set" where
  "lang Eps = {[]}"
| "lang (Cls p) = {[c] | c. p c}"
| "lang (Seq a b) = {u @ v | u v. u \<in> lang a \<and> v \<in> lang b}"
| "lang (Alt a b) = lang a \<union> lang b"
| "lang (Star (Cls p)) = {w. list_all p w}"
| "lang (LazyStar (Cls p)) = {w. list_all p w}"
| "lang (Opt a) = insert [] (lang a)"
| "lang r = {}"




text \<open>
  \<open>first r st st'\<close>: started in \<open>st\<close>, the pattern \<open>r\<close> matches, and \<open>st'\<close> is the state its
  first match ends in, the one that JavaScript reports.
\<close>

definition first :: "rx \<Rightarrow> mstate \<Rightarrow> mstate \<Rightarrow> bool" where
  "first r st st' = (\<exists>rest. rmatch r st = st' # rest)"


section \<open>Loops\<close>

lemma for_of_append:
  "for_of body (xs @ ys) acc =
     (case for_of body xs acc of Inl e \<Rightarrow> Inl e | Inr acc' \<Rightarrow> for_of body ys acc')"
  by (induction xs arbitrary: acc) (auto split: sum.splits)

lemma for_of_pushes:
  assumes "\<And>x acc. x \<in> set xs \<Longrightarrow> body x acc = Inr (acc @ f x)"
  shows "for_of body xs acc = Inr (acc @ concat (map f xs))"
  using assms by (induction xs arbitrary: acc) auto

lemma for_of_invariant:
  assumes "for_of body xs acc = Inr r" and "P acc"
    and "\<And>x a a'. x \<in> set xs \<Longrightarrow> P a \<Longrightarrow> body x a = Inr a' \<Longrightarrow> P a'"
  shows "P r"
  using assms
proof (induction xs arbitrary: acc)
  case Nil
  then show ?case by simp
next
  case (Cons x xs)
  from Cons.prems(1) obtain a' where b: "body x acc = Inr a'" and r: "for_of body xs a' = Inr r"
    by (auto split: sum.splits)
  have "P a'" using Cons.prems(3)[of x acc a'] b Cons.prems(2) by simp
  show ?case
    by (rule Cons.IH[OF r \<open>P a'\<close>]) (use Cons.prems(3) in auto)
qed

section \<open>The matcher\<close>

text \<open>Matching only consumes input, and keeps the captures it was given.\<close>

lemma rmatch_suffix:
  "(pv', s', g') \<in> set (rmatch r (pv, s, g)) \<Longrightarrow> \<exists>w. s = w @ s'"
proof (induction r "(pv, s, g)" arbitrary: pv s g pv' s' g' rule: rmatch.induct)
  case (3 a b)
  then show ?case by fastforce
next
  case (6 a pv c cs g)
  then show ?case by (fastforce split: if_splits)
next
  case (8 a pv c cs g)
  then show ?case by (fastforce split: if_splits)
qed (auto split: list.splits if_splits option.splits)

lemma rmatch_caps_kept:
  "(pv', s', g') \<in> set (rmatch r (pv, s, g)) \<Longrightarrow> g k \<noteq> None \<Longrightarrow> g' k \<noteq> None"
proof (induction r "(pv, s, g)" arbitrary: pv s g pv' s' g' rule: rmatch.induct)
  case (3 a b)
  then show ?case by fastforce
next
  case (6 a pv c cs g)
  then show ?case by (fastforce split: if_splits)
next
  case (8 a pv c cs g)
  then show ?case by (fastforce split: if_splits)
qed (auto split: list.splits if_splits option.splits)

lemma rmatch_sets_group:
  "(pv', s', g') \<in> set (rmatch r (pv, s, g)) \<Longrightarrow> sets_group r k \<Longrightarrow> g' k \<noteq> None"
proof (induction r arbitrary: pv s g pv' s' g')
  case (Seq a b)
  then show ?case by (fastforce dest: rmatch_caps_kept)
next
  case (Grp j a)
  then show ?case by (auto split: if_splits)
qed auto

lemma matchAll_sets_group:
  "(m, g) \<in> set (matchAll r pv s) \<Longrightarrow> sets_group r k \<Longrightarrow> g k \<noteq> None"
proof (induction r pv s rule: matchAll.induct)
  case (1 r pv s)
  show ?case
  proof (cases "rmatch r (pv, s, Map.empty)")
    case Nil
    with 1 show ?thesis by (cases s) auto
  next
    case (Cons st sts)
    obtain pv' s' g' where st: "st = (pv', s', g')" by (cases st) auto
    have g': "g' k \<noteq> None"
      using rmatch_sets_group[of pv' s' g' r pv s Map.empty k] Cons st "1.prems"(2) by simp
    show ?thesis
      using "1.prems" "1.IH" Cons st g'
      by (cases s) (auto split: if_splits)
  qed
qed

lemmas rx_defs =
  str_def Plus_def chr_def ichr_def upper_def space_def digit_def alpha_def word_def dot_def
  anychar_def lineTerminator_def test_def quote_def

section \<open>Blob assembly\<close>

lemma diffContent_keptLines:
  "diffContent file = join_nl (map (\<lambda>chunk. join_nl (keptLines chunk)) (chunks file))"
  by (simp add: diffContent_def keptLines_def)

lemma split_nl_line: "10 \<notin> set x \<Longrightarrow> split_nl x = [x]"
  by (induction x) auto

lemma split_nl_append: "10 \<notin> set x \<Longrightarrow> split_nl (x @ 10 # r) = x # split_nl r"
  by (induction x) auto

lemma split_nl_join_nl:
  "xs \<noteq> [] \<Longrightarrow> \<forall>x\<in>set xs. 10 \<notin> set x \<Longrightarrow> split_nl (join_nl xs) = xs"
  by (induction xs rule: join_nl.induct) (auto simp: split_nl_line split_nl_append)

lemma join_nl_append:
  "xs \<noteq> [] \<Longrightarrow> ys \<noteq> [] \<Longrightarrow> join_nl (xs @ ys) = join_nl xs @ 10 # join_nl ys"
proof (induction xs rule: join_nl.induct)
  case (2 x)
  then show ?case by (cases ys) auto
qed auto

lemma join_nl_Cons: "join_nl (x # ys) = (if ys = [] then x else x @ 10 # join_nl ys)"
  by (cases ys) auto

lemma join_nl_concat:
  "\<forall>xs\<in>set xss. xs \<noteq> [] \<Longrightarrow> join_nl (map join_nl xss) = join_nl (concat xss)"
proof (induction xss)
  case Nil
  then show ?case by simp
next
  case (Cons xs xss)
  show ?case
  proof (cases "xss = []")
    case True
    then show ?thesis by simp
  next
    case False
    then have "concat xss \<noteq> []" using Cons.prems by (cases xss) auto
    then show ?thesis
      using Cons False by (simp add: join_nl_Cons join_nl_append)
  qed
qed

lemma chunkLines_nonempty: "chunkLines chunk \<noteq> []"
  by (simp add: chunkLines_def)

lemma join_nl_chunkLines: "join_nl (chunkLines chunk) = join_nl (keptLines chunk)"
  by (simp add: chunkLines_def)

lemma diffContent_blobOf: "diffContent file = blobOf file"
proof -
  have "diffContent file = join_nl (map join_nl (map chunkLines (chunks file)))"
    by (simp add: diffContent_keptLines comp_def join_nl_chunkLines)
  also have "\<dots> = join_nl (concat (map chunkLines (chunks file)))"
    by (rule join_nl_concat) (simp add: chunkLines_nonempty)
  finally show ?thesis by (simp add: blobOf_def)
qed

lemma split_nl_blobOf:
  assumes "chunks file \<noteq> []"
    and "\<forall>chunk\<in>set (chunks file). \<forall>line\<in>set (keptLines chunk). 10 \<notin> set line"
  shows "split_nl (blobOf file) = concat (map chunkLines (chunks file))"
proof -
  have "concat (map chunkLines (chunks file)) \<noteq> []"
    using assms(1) chunkLines_nonempty by (cases "chunks file") auto
  moreover have "\<forall>x\<in>set (concat (map chunkLines (chunks file))). 10 \<notin> set x"
    using assms(2) by (auto simp: chunkLines_def split: if_splits)
  ultimately show ?thesis unfolding blobOf_def by (rule split_nl_join_nl)
qed

lemma removed_lines_dropped:
  "diffContent (file\<lparr>chunks :=
         map (\<lambda>chunk. chunk\<lparr>changes := filter (\<lambda>change. type change \<noteq> Del) (changes chunk)\<rparr>)
             (chunks file)\<rparr>) = diffContent file"
proof -
  have h: "\<And>c. (type c = Add \<or> type c = Normal) = (type c \<noteq> Del)"
    by (metis change_type.exhaust change_type.distinct)
  show ?thesis by (simp add: diffContent_def comp_def h)
qed

lemma endsWith_empty: "endsWith path []"
  by (simp add: endsWith_def)

lemma validatorLoop_single:
  "validatorLoop compile path blob [\<lparr> extensions = [[]], patterns = [], validate = f \<rparr>] issues
     = (case f blob of Inl e \<Rightarrow> Inl e | Inr found \<Rightarrow> Inr (issues @ found))"
  by (simp add: validatorLoop_def applies_def endsWith_empty split: sum.splits)

lemma analyzeFile_probe:
  assumes "to file = Some path" "path \<noteq> []" "path \<noteq> str ''/dev/null''"
  shows "analyzeFile compile (probe f1 f2) file issues
     = (case f1 (blobOf file) of Inl e \<Rightarrow> Inl e
        | Inr r1 \<Rightarrow>
           (case f2 (blobOf file) of Inl e \<Rightarrow> Inl e
            | Inr r2 \<Rightarrow>
               Inr (issues @ r1 @ r2
                    @ (if isMigration path then validateDatabaseMigration (blobOf file) else []))))"
  using assms
  by (simp add: analyzeFile_def probe_def Object_values_def validatorLoop_single
      diffContent_blobOf split: sum.splits)

lemma validatorLoop_answers:
  "map (answers blob) vs = map (answers blob) vs'
   \<Longrightarrow> validatorLoop compile path blob vs acc = validatorLoop compile path blob vs' acc"
proof (induction vs arbitrary: vs' acc)
  case Nil
  then show ?case by simp
next
  case (Cons v vs)
  then obtain v' ws where vs': "vs' = v' # ws" and a: "answers blob v = answers blob v'"
    and m: "map (answers blob) vs = map (answers blob) ws"
    by (cases vs') auto
  have step: "\<And>acc. validatorLoop compile path blob vs acc = validatorLoop compile path blob ws acc"
    by (rule Cons.IH[OF m])
  from a have e: "extensions v = extensions v'" "patterns v = patterns v'"
    "validate v blob = validate v' blob"
    by (simp_all add: answers_def)
  show ?case
    using step unfolding vs' validatorLoop_def
    by (simp add: applies_def e split: sum.splits bool.splits)
qed

lemma analyzeFile_sameAt:
  assumes "sameAt (blobOf file) \<sigma> \<sigma>'"
  shows "analyzeFile compile \<sigma> file issues = analyzeFile compile \<sigma>' file issues"
proof -
  from assms have
    p: "map (answers (blobOf file)) (Object_values (PACKAGE_VALIDATORS \<sigma>))
        = map (answers (blobOf file)) (Object_values (PACKAGE_VALIDATORS \<sigma>'))"
    and c: "map (answers (blobOf file)) (Object_values (CONTAINER_VALIDATORS \<sigma>))
        = map (answers (blobOf file)) (Object_values (CONTAINER_VALIDATORS \<sigma>'))"
    unfolding sameAt_def by blast+
  have 1: "validatorLoop compile path (blobOf file) (Object_values (PACKAGE_VALIDATORS \<sigma>)) acc
         = validatorLoop compile path (blobOf file) (Object_values (PACKAGE_VALIDATORS \<sigma>')) acc"
    for acc path
    using p by (rule validatorLoop_answers)
  have 2: "validatorLoop compile path (blobOf file) (Object_values (CONTAINER_VALIDATORS \<sigma>)) acc
         = validatorLoop compile path (blobOf file) (Object_values (CONTAINER_VALIDATORS \<sigma>')) acc"
    for acc path
    using c by (rule validatorLoop_answers)
  show ?thesis
    by (simp only: analyzeFile_def diffContent_blobOf 1 2)
qed

text \<open>
  C6, as amended. The blob is the lines that the chunks give, in the order of the chunks
  and, within a chunk, of its changes, joined by line feeds: a chunk gives its added and
  context lines, and a chunk that keeps no line gives one empty line. Dropping the removed
  lines of a file does not change its blob. When no kept line holds a line feed, splitting
  the blob at line feeds gives these lines back. For a file with a destination, every
  validator that applies and the migration checker are run on this blob: two validators
  that apply to every path are each called once with it, the first registry before the
  second, and replacing the validators by others that agree with them on this blob does
  not change the outcome.
\<close>

theorem blob_of_kept_lines:
  "diffContent file = join_nl (concat (map chunkLines (chunks file)))
   \<and> diffContent (file\<lparr>chunks :=
         map (\<lambda>chunk. chunk\<lparr>changes := filter (\<lambda>change. type change \<noteq> Del) (changes chunk)\<rparr>)
             (chunks file)\<rparr>) = diffContent file
   \<and> (chunks file \<noteq> []
        \<and> (\<forall>chunk\<in>set (chunks file). \<forall>line\<in>set (keptLines chunk). 10 \<notin> set line)
      \<longrightarrow> split_nl (diffContent file) = concat (map chunkLines (chunks file)))
   \<and> (to file = Some path \<and> path \<noteq> [] \<and> path \<noteq> str ''/dev/null''
      \<longrightarrow> analyzeFile compile (probe f1 f2) file issues
          = (case f1 (blobOf file) of Inl e \<Rightarrow> Inl e
             | Inr r1 \<Rightarrow>
                (case f2 (blobOf file) of Inl e \<Rightarrow> Inl e
                 | Inr r2 \<Rightarrow>
                    Inr (issues @ r1 @ r2
                         @ (if isMigration path then validateDatabaseMigration (blobOf file)
                            else [])))))
   \<and> (sameAt (blobOf file) \<sigma> \<sigma>'
      \<longrightarrow> analyzeFile compile \<sigma> file issues = analyzeFile compile \<sigma>' file issues)"
proof (intro conjI impI)
  show "diffContent file = join_nl (concat (map chunkLines (chunks file)))"
    using diffContent_blobOf[of "file"] by (simp add: blobOf_def)
next
  show "diffContent (file\<lparr>chunks :=
         map (\<lambda>chunk. chunk\<lparr>changes := filter (\<lambda>change. type change \<noteq> Del) (changes chunk)\<rparr>)
             (chunks file)\<rparr>) = diffContent file"
    by (rule removed_lines_dropped)
next
  assume "chunks file \<noteq> []
        \<and> (\<forall>chunk\<in>set (chunks file). \<forall>line\<in>set (keptLines chunk). 10 \<notin> set line)"
  then show "split_nl (diffContent file) = concat (map chunkLines (chunks file))"
    unfolding diffContent_blobOf by (intro split_nl_blobOf) auto
next
  assume "to file = Some path \<and> path \<noteq> [] \<and> path \<noteq> str ''/dev/null''"
  then show "analyzeFile compile (probe f1 f2) file issues
          = (case f1 (blobOf file) of Inl e \<Rightarrow> Inl e
             | Inr r1 \<Rightarrow>
                (case f2 (blobOf file) of Inl e \<Rightarrow> Inl e
                 | Inr r2 \<Rightarrow>
                    Inr (issues @ r1 @ r2
                         @ (if isMigration path then validateDatabaseMigration (blobOf file)
                            else []))))"
    by (intro analyzeFile_probe) auto
next
  assume "sameAt (blobOf file) \<sigma> \<sigma>'"
  then show "analyzeFile compile \<sigma> file issues = analyzeFile compile \<sigma>' file issues"
    by (rule analyzeFile_sameAt)
qed

theorem blob_of_kept_lines_witness:
  "split_nl (diffContent gap_file) = [str '' a'', str ''+c'', [], str ''+e'', str '' f'']
   \<and> analyzeFile reject (probe (echo (str ''1:'')) (echo (str ''2:''))) gap_file []
       = Inr [str ''1:'' @ gap_blob, str ''2:'' @ gap_blob]
   \<and> analyzeFile reject (probe guarded (echo (str ''2:''))) gap_file []
       = Inr [str ''1:'' @ gap_blob, str ''2:'' @ gap_blob]"
proof -
  let ?\<sigma> = "probe (echo (str ''1:'')) (echo (str ''2:''))"
  let ?\<sigma>' = "probe guarded (echo (str ''2:''))"
  note inst = blob_of_kept_lines [of gap_file "str ''notes.md''" reject "echo (str ''1:'')"
      "echo (str ''2:'')" "[]" ?\<sigma> ?\<sigma>']
  have lines: "concat (map chunkLines (chunks gap_file))
      = [str '' a'', str ''+c'', [], str ''+e'', str '' f'']"
    by (simp add: gap_file_def chunkLines_def keptLines_def)
  have blob: "blobOf gap_file = gap_blob"
    unfolding blobOf_def lines by (simp add: gap_blob_def)
  have h1: "chunks gap_file \<noteq> []
        \<and> (\<forall>chunk\<in>set (chunks gap_file). \<forall>line\<in>set (keptLines chunk). 10 \<notin> set line)"
    by (auto simp: gap_file_def keptLines_def str_def)
  have h2: "to gap_file = Some (str ''notes.md'') \<and> str ''notes.md'' \<noteq> []
      \<and> str ''notes.md'' \<noteq> str ''/dev/null''"
    by (simp add: gap_file_def str_def)
  have h3: "sameAt (blobOf gap_file) ?\<sigma> ?\<sigma>'"
    unfolding blob by (simp add: sameAt_def probe_def Object_values_def answers_def guarded_def)
  have m: "\<not> isMigration (str ''notes.md'')"
    by (simp add: isMigration_def migrationRegex_def startsWith_def rx_defs)
  have 1: "split_nl (diffContent gap_file) = [str '' a'', str ''+c'', [], str ''+e'', str '' f'']"
    using inst h1 lines by metis
  have "analyzeFile reject ?\<sigma> gap_file []
      = (case echo (str ''1:'') (blobOf gap_file) of Inl e \<Rightarrow> Inl e
         | Inr r1 \<Rightarrow>
            (case echo (str ''2:'') (blobOf gap_file) of Inl e \<Rightarrow> Inl e
             | Inr r2 \<Rightarrow>
                Inr ([] @ r1 @ r2
                     @ (if isMigration (str ''notes.md'')
                        then validateDatabaseMigration (blobOf gap_file) else []))))"
    using inst h2 by blast
  then have 2: "analyzeFile reject ?\<sigma> gap_file []
      = Inr [str ''1:'' @ gap_blob, str ''2:'' @ gap_blob]"
    unfolding blob by (simp add: echo_def m)
  have "analyzeFile reject ?\<sigma> gap_file [] = analyzeFile reject ?\<sigma>' gap_file []"
    using inst h3 by blast
  with 2 have 3: "analyzeFile reject ?\<sigma>' gap_file []
      = Inr [str ''1:'' @ gap_blob, str ''2:'' @ gap_blob]"
    by simp
  from 1 2 3 show ?thesis by blast
qed

text \<open>
  C6, as stated, fails for a chunk that only removes lines: the blob of \<open>gap_file\<close> holds
  an empty line between the lines of its first and third chunk, and so is not the added
  and context lines joined by line feeds.
\<close>

theorem kept_lines_gap_counterexample:
  "diffContent gap_file = str '' a'' @ 10 # str ''+c'' @ 10 # 10 # str ''+e'' @ 10 # str '' f''
   \<and> join_nl (concat (map keptLines (chunks gap_file)))
       = str '' a'' @ 10 # str ''+c'' @ 10 # str ''+e'' @ 10 # str '' f''
   \<and> diffContent gap_file \<noteq> join_nl (concat (map keptLines (chunks gap_file)))"
  by (simp add: gap_file_def diffContent_def keptLines_def str_def)


section \<open>The dispatcher\<close>

lemma sample_diff_issues:
  "fst (analyzeCode compile module_init sample_diff)
     = Inr [nonSpecificMessage (str ''node'') (str ''latest'')]"
  by (simp add: analyzeCode_def sample_diff_def analyzeFile_def module_init_def Object_values_def
      validatorLoop_def applies_def endsWith_def diffContent_def isMigration_def
      migrationRegex_def startsWith_def RegExp_new_def String_match_def syntaxCharacter_def
      validateDockerfile_def fromLines_def fromLineRegex_def fromRegex_def cleanContent_def
      remove_first_def nonSpecificTag_def rx_defs)

text \<open>
  C8. A file whose destination is absent or is \<^verbatim>\<open>/dev/null\<close> leaves the issues as they
  are, whatever its chunks hold, and the analysis of a diff is the analysis of the diff
  without that file.
\<close>

theorem deleted_file_skipped:
  "to file = None \<or> to file = Some (str ''/dev/null'') \<Longrightarrow>
     analyzeFile compile \<sigma> file issues = Inr issues
     \<and> analyzeCode compile \<sigma> (before @ file # after) = analyzeCode compile \<sigma> (before @ after)"
proof -
  assume a: "to file = None \<or> to file = Some (str ''/dev/null'')"
  then have f: "\<And>issues. analyzeFile compile \<sigma> file issues = Inr issues"
    by (auto simp: analyzeFile_def)
  have "for_of (analyzeFile compile \<sigma>) (before @ file # after) []
      = for_of (analyzeFile compile \<sigma>) (before @ after) []"
    by (simp add: for_of_append f split: sum.splits)
  then show ?thesis by (simp add: f analyzeCode_def)
qed

theorem deleted_file_skipped_witness:
  "to deleted_file = Some (str ''/dev/null'')
   \<and> fst (analyzeCode reject module_init (deleted_file # sample_diff))
       = Inr [nonSpecificMessage (str ''node'') (str ''latest'')]"
  using deleted_file_skipped [of deleted_file reject module_init "[]" "[]" sample_diff]
    sample_diff_issues [of reject]
  by (simp add: deleted_file_def)


section \<open>The wrapper check\<close>

lemma riskyLoop_filter:
  "riskyLoop block ps acc
     = acc @ map snd (filter (\<lambda>(p, m). test p block \<and> \<not> test ifCheckRegex block) ps)"
  by (induction block ps acc rule: riskyLoop.induct) auto

lemma riskyLoop_messages:
  "set (riskyLoop block riskyPatterns [])
     \<subseteq> {createMessage, alterMessage, insertMessage, dropMessage}"
  by (auto simp: riskyLoop_filter riskyPatterns_def)

lemma wrapperMessage_distinct:
  "wrapperMessage \<notin> {createMessage, alterMessage, insertMessage, dropMessage}"
  by (simp add: wrapperMessage_def createMessage_def alterMessage_def insertMessage_def
      dropMessage_def str_def warn_def)

section \<open>Warnings of the GitHub Actions matcher\<close>

lemma no_action_messages:
  "\<not> actionWarning (nodeMessage a b)" "\<not> actionWarning (pythonMessage a b)"
  "\<not> actionWarning (rubyMessage a b)" "\<not> actionWarning (gradleMessage a b c)"
  "\<not> actionWarning (mavenMessage a)" "\<not> actionWarning (k8sMessage a b)"
  "\<not> actionWarning (composeMessage a b)" "\<not> actionWarning (noTagMessage a)"
  "\<not> actionWarning (nonSpecificMessage a b)" "\<not> actionWarning wrapperMessage"
  "\<not> actionWarning createMessage" "\<not> actionWarning alterMessage"
  "\<not> actionWarning insertMessage" "\<not> actionWarning dropMessage"
  by (simp_all add: actionWarning_def startsWith_def nodeMessage_def pythonMessage_def
      rubyMessage_def gradleMessage_def mavenMessage_def k8sMessage_def composeMessage_def
      noTagMessage_def nonSpecificMessage_def wrapperMessage_def createMessage_def
      alterMessage_def insertMessage_def dropMessage_def str_def warn_def)

lemma action_message: "actionWarning (actionMessage a b)"
  by (simp add: actionWarning_def startsWith_def actionMessage_def str_def warn_def)


lemma clean_simps: "clean []" "clean (xs @ ys) = (clean xs \<and> clean ys)"
  "clean (x # xs) = (\<not> actionWarning x \<and> clean xs)"
  by (auto simp: clean_def)

lemma validateNodePackage_clean: "validateNodePackage blob = Inr r \<Longrightarrow> clean r"
  unfolding validateNodePackage_def
  by (erule for_of_invariant)
     (auto simp: clean_simps no_action_messages split: option.splits if_splits)

lemma validatePythonPackage_clean: "validatePythonPackage blob = Inr r \<Longrightarrow> clean r"
  unfolding validatePythonPackage_def
  by (erule for_of_invariant)
     (auto simp: clean_simps no_action_messages split: option.splits if_splits)

lemma validateRubyPackage_clean: "validateRubyPackage blob = Inr r \<Longrightarrow> clean r"
  unfolding validateRubyPackage_def
  by (erule for_of_invariant)
     (auto simp: clean_simps no_action_messages split: option.splits if_splits)

lemma gradleLoop_clean: "gradleLoop ms acc = Inr r \<Longrightarrow> clean acc \<Longrightarrow> clean r"
  unfolding gradleLoop_def
  by (erule for_of_invariant)
     (auto simp: clean_simps no_action_messages split: option.splits if_splits)

lemma mavenLoop_clean: "mavenLoop ms acc = Inr r \<Longrightarrow> clean acc \<Longrightarrow> clean r"
  unfolding mavenLoop_def
  by (erule for_of_invariant)
     (auto simp: clean_simps no_action_messages split: option.splits if_splits)

lemma validateJavaPackage_clean: "validateJavaPackage blob = Inr r \<Longrightarrow> clean r"
  unfolding validateJavaPackage_def Let_def
  by (auto split: sum.splits dest!: gradleLoop_clean mavenLoop_clean simp: clean_simps)

lemma validateKubernetesManifest_clean: "validateKubernetesManifest blob = Inr r \<Longrightarrow> clean r"
  unfolding validateKubernetesManifest_def
  by (erule for_of_invariant)
     (auto simp: clean_simps no_action_messages split: option.splits if_splits)

lemma validateDockerCompose_clean: "validateDockerCompose blob = Inr r \<Longrightarrow> clean r"
  unfolding validateDockerCompose_def
  by (erule for_of_invariant)
     (auto simp: clean_simps no_action_messages split: option.splits if_splits)

lemma validateDockerfile_clean: "validateDockerfile blob = Inr r \<Longrightarrow> clean r"
  unfolding validateDockerfile_def
  by (erule for_of_invariant)
     (auto simp: clean_simps no_action_messages split: option.splits if_splits)

lemma validateDatabaseMigration_clean: "clean (validateDatabaseMigration blob)"
  using riskyLoop_messages[of "blockContent (cleanContent blob)"]
  by (auto simp: validateDatabaseMigration_def Let_def clean_def no_action_messages)

lemma validatorLoop_clean:
  assumes "validatorLoop compile path blob vs acc = Inr r" and "clean acc"
    and "\<And>v b r. v \<in> set vs \<Longrightarrow> validate v b = Inr r \<Longrightarrow> clean r"
  shows "clean r"
  using assms(1,2) unfolding validatorLoop_def
  by (rule for_of_invariant) (auto simp: clean_simps split: sum.splits bool.splits dest: assms(3))

lemma registered_clean:
  "v \<in> set (Object_values (PACKAGE_VALIDATORS module_init))
       \<union> set (Object_values (CONTAINER_VALIDATORS module_init))
   \<Longrightarrow> validate v b = Inr r \<Longrightarrow> clean r"
  by (auto simp: module_init_def Object_values_def
      dest: validateNodePackage_clean validatePythonPackage_clean validateRubyPackage_clean
        validateJavaPackage_clean validateKubernetesManifest_clean validateDockerCompose_clean
        validateDockerfile_clean)

lemma analyzeFile_clean:
  assumes "analyzeFile compile module_init file acc = Inr r" and "clean acc"
  shows "clean r"
proof (cases "to file")
  case None
  with assms show ?thesis by (simp add: analyzeFile_def)
next
  case (Some path)
  show ?thesis
  proof (cases "path = [] \<or> path = str ''/dev/null''")
    case True
    with assms Some show ?thesis by (auto simp: analyzeFile_def)
  next
    case False
    from assms(1) Some False obtain i1 i2 where
      1: "validatorLoop compile path (diffContent file)
            (Object_values (PACKAGE_VALIDATORS module_init)) acc = Inr i1" and
      2: "validatorLoop compile path (diffContent file)
            (Object_values (CONTAINER_VALIDATORS module_init)) i1 = Inr i2" and
      3: "r = (if isMigration path then i2 @ validateDatabaseMigration (diffContent file) else i2)"
      by (auto simp: analyzeFile_def split: sum.splits if_splits)
    have "clean i1"
      by (rule validatorLoop_clean[OF 1 assms(2)]) (erule registered_clean[OF UnI1])
    then have "clean i2"
      by (rule validatorLoop_clean[OF 2]) (erule registered_clean[OF UnI2])
    then show ?thesis
      using 3 by (simp add: clean_simps validateDatabaseMigration_clean)
  qed
qed

lemma analyzeCode_clean:
  "fst (analyzeCode compile module_init parsedDiff) = Inr issues \<Longrightarrow> clean issues"
  unfolding analyzeCode_def fst_conv
  by (erule for_of_invariant) (auto simp: clean_simps dest: analyzeFile_clean)

lemma workflow_diff_issues:
  "fst (analyzeCode compile module_init (workflow_diff @ sample_diff))
     = Inr [nonSpecificMessage (str ''node'') (str ''latest'')]"
  by (simp add: analyzeCode_def workflow_diff_def sample_diff_def analyzeFile_def
      module_init_def Object_values_def
      validatorLoop_def applies_def endsWith_def diffContent_def isMigration_def
      migrationRegex_def startsWith_def RegExp_new_def String_match_def syntaxCharacter_def
      validateDockerfile_def fromLines_def fromLineRegex_def fromRegex_def cleanContent_def
      validateKubernetesManifest_def validateDockerCompose_def k8sImageRegex_def
      composeImageRegex_def
      remove_first_def nonSpecificTag_def rx_defs)

lemma action_probe:
  "validateGitHubActions (str ''uses: a@main'') = Inr [actionMessage (str ''a'') (str ''main'')]"
  by (simp add: validateGitHubActions_def actionRegex_def exactVersionRegex_def rx_defs)

lemma registered_probe:
  "validateNodePackage (str ''uses: a@main'') = Inr []"
  "validatePythonPackage (str ''uses: a@main'')
     = Inr [pythonMessage (str ''uses:'') (str ''unspecified'')]"
  "validateRubyPackage (str ''uses: a@main'') = Inr []"
  "validateJavaPackage (str ''uses: a@main'') = Inr []"
  "validateDockerfile (str ''uses: a@main'') = Inr []"
  "validateKubernetesManifest (str ''uses: a@main'') = Inr []"
  "validateDockerCompose (str ''uses: a@main'') = Inr []"
  by (simp_all add: validateNodePackage_def packageRegex_def validatePythonPackage_def
      requirementRegex_def validateRubyPackage_def gemRegex_def validateJavaPackage_def
      gradleRegex_def mavenRegex_def gradleLoop_def mavenLoop_def validateDockerfile_def
      fromLines_def fromLineRegex_def fromRegex_def cleanContent_def remove_first_def
      validateKubernetesManifest_def validateDockerCompose_def k8sImageRegex_def
      composeImageRegex_def rx_defs)

lemma not_registered:
  "v \<in> set (Object_values (PACKAGE_VALIDATORS module_init)
            @ Object_values (CONTAINER_VALIDATORS module_init))
   \<Longrightarrow> validate v \<noteq> validateGitHubActions"
proof
  assume v: "v \<in> set (Object_values (PACKAGE_VALIDATORS module_init)
            @ Object_values (CONTAINER_VALIDATORS module_init))"
    and "validate v = validateGitHubActions"
  then have "validate v (str ''uses: a@main'') = Inr [actionMessage (str ''a'') (str ''main'')]"
    by (simp add: action_probe)
  moreover have "\<not> actionWarning (pythonMessage (str ''uses:'') (str ''unspecified''))"
    by (rule no_action_messages)
  ultimately show False
    using v action_message[of "str ''a''" "str ''main''"]
    by (auto simp: module_init_def Object_values_def registered_probe)
qed

text \<open>
  C10. The GitHub Actions matcher is the \<open>validate\<close> of no registered validator, and
  whatever the diff, no issue of the analysis is one of its warnings.
\<close>

theorem no_action_warning:
  "(\<forall>v\<in>set (Object_values (PACKAGE_VALIDATORS module_init)
              @ Object_values (CONTAINER_VALIDATORS module_init)).
       validate v \<noteq> validateGitHubActions)
   \<and> (fst (analyzeCode compile module_init parsedDiff) = Inr issues
      \<longrightarrow> (\<forall>w\<in>set issues. \<not> actionWarning w)
        \<and> (\<forall>action version. actionMessage action version \<notin> set issues))"
proof (intro conjI impI ballI allI)
  fix v
  assume "v \<in> set (Object_values (PACKAGE_VALIDATORS module_init)
              @ Object_values (CONTAINER_VALIDATORS module_init))"
  then show "validate v \<noteq> validateGitHubActions" by (rule not_registered)
next
  fix w
  assume "fst (analyzeCode compile module_init parsedDiff) = Inr issues" and "w \<in> set issues"
  then show "\<not> actionWarning w"
    using analyzeCode_clean[of compile parsedDiff issues] by (simp add: clean_def)
next
  fix action version
  assume "fst (analyzeCode compile module_init parsedDiff) = Inr issues"
  then show "actionMessage action version \<notin> set issues"
    using analyzeCode_clean[of compile parsedDiff issues] action_message[of action version]
    by (auto simp: clean_def)
qed

theorem no_action_warning_witness:
  "fst (analyzeCode reject module_init (workflow_diff @ sample_diff))
     = Inr [nonSpecificMessage (str ''node'') (str ''latest'')]
   \<and> \<not> actionWarning (nonSpecificMessage (str ''node'') (str ''latest''))
   \<and> validateGitHubActions (str ''uses: a@main'')
       = Inr [actionMessage (str ''a'') (str ''main'')]"
  using no_action_warning [of reject "workflow_diff @ sample_diff"
      "[nonSpecificMessage (str ''node'') (str ''latest'')]"]
    workflow_diff_issues [of reject] action_probe
  by simp


section \<open>The statement rules\<close>

lemma lastopt_simps [simp]:
  "lastopt pv [] = pv" "lastopt pv (c # cs) = lastopt (Some c) cs"
  "lastopt (lastopt pv a) b = lastopt pv (a @ b)"
  by (auto simp: lastopt_def)

lemma rmatch_position:
  "(pv', s', g') \<in> set (rmatch r (pv, s, g)) \<Longrightarrow> \<exists>w. s = w @ s' \<and> pv' = lastopt pv w"
proof (induction r "(pv, s, g)" arbitrary: pv s g pv' s' g' rule: rmatch.induct)
  case (2 p pv s g)
  then show ?case by (cases s) (auto split: if_splits intro: exI[of _ "[hd s]"])
next
  case (3 a b)
  then obtain pv1 s1 g1 where 1: "(pv1, s1, g1) \<in> set (rmatch a (pv, s, g))"
    and 2: "(pv', s', g') \<in> set (rmatch b (pv1, s1, g1))" by auto
  from 3(1)[OF 1] obtain w1 where w1: "s = w1 @ s1" "pv1 = lastopt pv w1" by auto
  from 3(2)[OF 1 2] obtain w2 where w2: "s1 = w2 @ s'" "pv' = lastopt pv1 w2" by auto
  show ?case using w1 w2 by (intro exI[of _ "w1 @ w2"]) simp
next
  case (6 a pv c cs g)
  show ?case
  proof (cases "(pv', s', g') = (pv, c # cs, g)")
    case True
    then show ?thesis by (intro exI[of _ "[]"]) simp
  next
    case False
    with 6(3) obtain pv1 s1 g1 where 1: "(pv1, s1, g1) \<in> set (rmatch a (pv, c # cs, g))"
      and l: "length s1 < Suc (length cs)"
      and 2: "(pv', s', g') \<in> set (rmatch (Star a) (pv1, s1, g1))"
      by (auto split: if_splits)
    from 6(1)[OF 1] obtain w1 where w1: "c # cs = w1 @ s1" "pv1 = lastopt pv w1" by auto
    from 6(2)[OF 1 _ 2] l obtain w2 where w2: "s1 = w2 @ s'" "pv' = lastopt pv1 w2" by auto
    show ?thesis using w1 w2 by (intro exI[of _ "w1 @ w2"]) simp
  qed
next
  case (8 a pv c cs g)
  show ?case
  proof (cases "(pv', s', g') = (pv, c # cs, g)")
    case True
    then show ?thesis by (intro exI[of _ "[]"]) simp
  next
    case False
    with 8(3) obtain pv1 s1 g1 where 1: "(pv1, s1, g1) \<in> set (rmatch a (pv, c # cs, g))"
      and l: "length s1 < Suc (length cs)"
      and 2: "(pv', s', g') \<in> set (rmatch (LazyStar a) (pv1, s1, g1))"
      by (auto split: if_splits)
    from 8(1)[OF 1] obtain w1 where w1: "c # cs = w1 @ s1" "pv1 = lastopt pv w1" by auto
    from 8(2)[OF 1 _ 2] l obtain w2 where w2: "s1 = w2 @ s'" "pv' = lastopt pv1 w2" by auto
    show ?thesis using w1 w2 by (intro exI[of _ "w1 @ w2"]) simp
  qed
next
  case (9 a st)
  then show ?case by (auto intro: exI[of _ "[]"])
next
  case (10 k a pv s g)
  then show ?case by auto
qed (auto split: list.splits if_splits option.splits intro: exI[of _ "[]"])

lemma rmatch_nogroup:
  "(pv', s', g') \<in> set (rmatch r (pv, s, g)) \<Longrightarrow> nogroup r \<Longrightarrow> g' = g"
proof (induction r "(pv, s, g)" arbitrary: pv s g pv' s' g' rule: rmatch.induct)
  case (3 a b)
  then show ?case by fastforce
next
  case (6 a pv c cs g)
  then show ?case by (fastforce split: if_splits)
next
  case (8 a pv c cs g)
  then show ?case by (fastforce split: if_splits)
qed (auto split: list.splits if_splits option.splits)

lemma exec_iff:
  "exec r pv s \<noteq> None \<longleftrightarrow> (\<exists>u v. s = u @ v \<and> rmatch r (lastopt pv u, v, Map.empty) \<noteq> [])"
proof (induction s arbitrary: pv)
  case Nil
  then show ?case by (auto split: list.splits)
next
  case (Cons c cs)
  show ?case
  proof (cases "rmatch r (pv, c # cs, Map.empty) = []")
    case False
    then have "exec r pv (c # cs) \<noteq> None" by (auto split: list.splits)
    moreover have "\<exists>u v. c # cs = u @ v \<and> rmatch r (lastopt pv u, v, Map.empty) \<noteq> []"
      using False by (intro exI[of _ "[]"] exI[of _ "c # cs"]) simp
    ultimately show ?thesis by simp
  next
    case True
    then have "exec r pv (c # cs) \<noteq> None \<longleftrightarrow> exec r (Some c) cs \<noteq> None"
      by (auto split: option.splits)
    also have "\<dots> \<longleftrightarrow> (\<exists>u v. cs = u @ v \<and> rmatch r (lastopt (Some c) u, v, Map.empty) \<noteq> [])"
      by (rule Cons.IH)
    also have "\<dots> \<longleftrightarrow> (\<exists>u v. c # cs = u @ v \<and> rmatch r (lastopt pv u, v, Map.empty) \<noteq> [])"
    proof
      assume "\<exists>u v. cs = u @ v \<and> rmatch r (lastopt (Some c) u, v, Map.empty) \<noteq> []"
      then obtain u v where "cs = u @ v" "rmatch r (lastopt (Some c) u, v, Map.empty) \<noteq> []"
        by auto
      then show "\<exists>u v. c # cs = u @ v \<and> rmatch r (lastopt pv u, v, Map.empty) \<noteq> []"
        by (intro exI[of _ "c # u"] exI[of _ v]) simp
    next
      assume "\<exists>u v. c # cs = u @ v \<and> rmatch r (lastopt pv u, v, Map.empty) \<noteq> []"
      then obtain u v where uv: "c # cs = u @ v" "rmatch r (lastopt pv u, v, Map.empty) \<noteq> []"
        by auto
      with True have "u \<noteq> []" by (cases u) auto
      then obtain u' where "u = c # u'" using uv(1) by (cases u) auto
      with uv show "\<exists>u v. cs = u @ v \<and> rmatch r (lastopt (Some c) u, v, Map.empty) \<noteq> []"
        by (intro exI[of _ u'] exI[of _ v]) simp
    qed
    finally show ?thesis .
  qed
qed

lemma test_iff:
  "test r s \<longleftrightarrow> (\<exists>u v. s = u @ v \<and> rmatch r (lastopt None u, v, Map.empty) \<noteq> [])"
  unfolding test_def by (rule exec_iff)


lemma seqs_append:
  "set (rmatch (seqs (as @ bs)) st) = (\<Union>st'\<in>set (rmatch (seqs as) st). set (rmatch (seqs bs) st'))"
  by (induction as arbitrary: st) auto

lemma nogroup_seqs: "nogroup (seqs rs) = list_all nogroup rs"
  by (induction rs) auto

lemma nogroup_ilit [simp]: "nogroup (ilit s)"
  by (induction s) (auto simp: ichr_def)

lemma nogroup_lit [simp]: "nogroup (lit s)"
  by (induction s) (auto simp: chr_def)

lemma nogroup_Plus [simp]: "nogroup (Plus r) = nogroup r"
  by (simp add: Plus_def)

text \<open>From a position of a text, a pattern without groups leads to positions of that text.\<close>

lemma rmatch_pos:
  assumes "st' \<in> set (rmatch r (pos u v))" and "nogroup r"
  shows "\<exists>w v'. v = w @ v' \<and> st' = pos (u @ w) v'"
proof -
  obtain pv' s' g' where st': "st' = (pv', s', g')" by (cases st') auto
  from assms(1) have m: "(pv', s', g') \<in> set (rmatch r (lastopt None u, v, Map.empty))"
    by (simp add: st' pos_def)
  from rmatch_position[OF m] obtain w where "v = w @ s'" "pv' = lastopt None (u @ w)" by auto
  moreover from rmatch_nogroup[OF m assms(2)] have "g' = Map.empty" .
  ultimately show ?thesis by (auto simp: st' pos_def)
qed

lemma test_pos: "test r b \<longleftrightarrow> (\<exists>u v. b = u @ v \<and> rmatch r (pos u v) \<noteq> [])"
  by (simp add: test_iff pos_def)

lemma testI: "b = u @ v \<Longrightarrow> st \<in> set (rmatch r (pos u v)) \<Longrightarrow> test r b"
  unfolding test_pos by (intro exI[of _ u] exI[of _ v]) auto

lemma testE:
  assumes "test r b"
  obtains u v st where "b = u @ v" and "st \<in> set (rmatch r (pos u v))"
proof -
  from assms obtain u v where b: "b = u @ v" and "rmatch r (pos u v) \<noteq> []"
    unfolding test_pos by blast
  then obtain st where "st \<in> set (rmatch r (pos u v))"
    by (cases "rmatch r (pos u v)") auto
  with b that show ?thesis by blast
qed

lemma seqs_append_iff:
  "st'' \<in> set (rmatch (seqs (as @ bs)) st)
     \<longleftrightarrow> (\<exists>st'\<in>set (rmatch (seqs as) st). st'' \<in> set (rmatch (seqs bs) st'))"
  by (simp add: seqs_append)

lemma lookahead_iff:
  "st'' \<in> set (rmatch (seqs [NotAhead L, G]) st')
     \<longleftrightarrow> rmatch L st' = [] \<and> st'' \<in> set (rmatch G st')"
  by simp

lemma single_iff: "st'' \<in> set (rmatch (seqs [G]) st') \<longleftrightarrow> st'' \<in> set (rmatch G st')"
  by simp


text \<open>
  A rule pattern is a head without groups, a negative lookahead and the table name. Where
  the lookahead of one pattern fails, at a position of the block, only if that of another
  fails there, a block matched by the first pattern is matched by the second.
\<close>

lemma lookahead_exchange:
  assumes fr: "list_all nogroup front"
    and eq: "\<And>u v. b = u @ v \<Longrightarrow> rmatch L (pos u v) = [] \<Longrightarrow> rmatch L' (pos u v) = []"
    and t: "test (seqs (front @ [NotAhead L, G])) b"
  shows "test (seqs (front @ [NotAhead L', G])) b"
proof -
  from t obtain u v st'' where b: "b = u @ v"
    and m: "st'' \<in> set (rmatch (seqs (front @ [NotAhead L, G])) (pos u v))"
    by (rule testE)
  from m obtain st' where st': "st' \<in> set (rmatch (seqs front) (pos u v))"
    and n: "st'' \<in> set (rmatch (seqs [NotAhead L, G]) st')"
    unfolding seqs_append_iff by blast
  from fr have "nogroup (seqs front)" by (simp add: nogroup_seqs)
  from rmatch_pos[OF st' this] obtain w v' where w: "v = w @ v'" "st' = pos (u @ w) v'"
    by blast
  from n have L: "rmatch L st' = []" and G: "st'' \<in> set (rmatch G st')"
    unfolding lookahead_iff by blast+
  have "b = (u @ w) @ v'" using b w by simp
  from eq[OF this] L w have "rmatch L' st' = []" by simp
  with G have "st'' \<in> set (rmatch (seqs [NotAhead L', G]) st')"
    unfolding lookahead_iff by blast
  with st' have "st'' \<in> set (rmatch (seqs (front @ [NotAhead L', G])) (pos u v))"
    unfolding seqs_append_iff by blast
  with b show ?thesis by (rule testI)
qed

lemma lookahead_drop:
  assumes t: "test (seqs (front @ [NotAhead L, G])) b"
  shows "test (seqs (front @ [G])) b"
proof -
  from t obtain u v st'' where b: "b = u @ v"
    and m: "st'' \<in> set (rmatch (seqs (front @ [NotAhead L, G])) (pos u v))"
    by (rule testE)
  from m obtain st' where st': "st' \<in> set (rmatch (seqs front) (pos u v))"
    and n: "st'' \<in> set (rmatch (seqs [NotAhead L, G]) st')"
    unfolding seqs_append_iff by blast
  from n have "st'' \<in> set (rmatch (seqs [G]) st')"
    unfolding lookahead_iff single_iff by blast
  with st' have "st'' \<in> set (rmatch (seqs (front @ [G])) (pos u v))"
    unfolding seqs_append_iff by blast
  with b show ?thesis by (rule testI)
qed

lemma lookahead_add:
  assumes fr: "list_all nogroup front"
    and eq: "\<And>u v. b = u @ v \<Longrightarrow> rmatch L (pos u v) = []"
    and t: "test (seqs (front @ [G])) b"
  shows "test (seqs (front @ [NotAhead L, G])) b"
proof -
  from t obtain u v st'' where b: "b = u @ v"
    and m: "st'' \<in> set (rmatch (seqs (front @ [G])) (pos u v))"
    by (rule testE)
  from m obtain st' where st': "st' \<in> set (rmatch (seqs front) (pos u v))"
    and G: "st'' \<in> set (rmatch (seqs [G]) st')"
    unfolding seqs_append_iff by blast
  from fr have "nogroup (seqs front)" by (simp add: nogroup_seqs)
  from rmatch_pos[OF st' this] obtain w v' where w: "v = w @ v'" "st' = pos (u @ w) v'"
    by blast
  have "b = (u @ w) @ v'" using b w by simp
  from eq[OF this] w have "rmatch L st' = []" by simp
  with G have "st'' \<in> set (rmatch (seqs [NotAhead L, G]) st')"
    unfolding lookahead_iff single_iff by blast
  with st' have "st'' \<in> set (rmatch (seqs (front @ [NotAhead L, G])) (pos u v))"
    unfolding seqs_append_iff by blast
  with b show ?thesis by (rule testI)
qed


lemma rmatch_remaining_le: "st' \<in> set (rmatch r st) \<Longrightarrow> remaining st' \<le> remaining st"
proof -
  assume a: "st' \<in> set (rmatch r st)"
  obtain pv s g pv' s' g' where st: "st = (pv, s, g)" "st' = (pv', s', g')"
    by (cases st, cases st') auto
  with a rmatch_suffix[of pv' s' g' r pv s g] show ?thesis by auto
qed

lemma Cls_consumes: "st' \<in> set (rmatch (Cls p) st) \<Longrightarrow> remaining st' < remaining st"
  by (cases st) (auto split: list.splits if_splits)

lemma Seq_Cls_consumes:
  "st' \<in> set (rmatch (Seq (Cls p) r) st) \<Longrightarrow> remaining st' < remaining st"
proof -
  assume "st' \<in> set (rmatch (Seq (Cls p) r) st)"
  then obtain st1 where "st1 \<in> set (rmatch (Cls p) st)" "st' \<in> set (rmatch r st1)" by auto
  then show ?thesis
    using Cls_consumes[of st1 p st] rmatch_remaining_le[of st' r st1] by simp
qed

lemma ilit_consumes:
  "st' \<in> set (rmatch (ilit (c # cs)) st) \<Longrightarrow> remaining st' < remaining st"
  using Seq_Cls_consumes[of st' _ "ilit cs" st] by (simp add: ichr_def)

lemma Opt_take:
  "st' \<in> set (rmatch a st) \<Longrightarrow> remaining st' < remaining st \<Longrightarrow> st' \<in> set (rmatch (Opt a) st)"
  by simp

lemma Opt_skip: "st \<in> set (rmatch (Opt a) st)"
  by simp

lemma Seq_iff:
  "st'' \<in> set (rmatch (Seq a b) st) \<longleftrightarrow> (\<exists>st'\<in>set (rmatch a st). st'' \<in> set (rmatch b st'))"
  by simp

lemma seqs_Cons_iff:
  "st'' \<in> set (rmatch (seqs (a # bs)) st)
     \<longleftrightarrow> (\<exists>st'\<in>set (rmatch a st). st'' \<in> set (rmatch (seqs bs) st'))"
  by simp

text \<open>
  Where \<^verbatim>\<open>IF\s+NOT\s+EXISTS\<close> or \<^verbatim>\<open>IF\s+EXISTS\<close> matches, so does
  \<^verbatim>\<open>IF\s+(?:NOT\s+)?EXISTS\<close>.
\<close>

lemma Eps_iff: "st' \<in> set (rmatch Eps st) \<longleftrightarrow> st' = st"
  by auto

lemma NOT_consumes:
  assumes "s3 \<in> set (rmatch (ilit (str ''NOT'')) s2)"
    and "s4 \<in> set (rmatch (Plus (Cls space)) s3)"
  shows "s4 \<in> set (rmatch (Opt (Seq (ilit (str ''NOT'')) (Seq (Plus (Cls space)) Eps))) s2)"
proof -
  have "remaining s3 < remaining s2"
    using assms(1) ilit_consumes[of s3 78 "str ''OT''" s2] by (simp add: str_def)
  with rmatch_remaining_le[OF assms(2)] have "remaining s4 < remaining s2" by simp
  moreover have "s4 \<in> set (rmatch (Seq (ilit (str ''NOT'')) (Seq (Plus (Cls space)) Eps)) s2)"
    unfolding Seq_iff Eps_iff using assms by blast
  ultimately show ?thesis by (rule Opt_take[rotated])
qed

lemma ifNotExists_ifCheck:
  assumes "st'' \<in> set (rmatch ifNotExistsRegex st)"
  shows "st'' \<in> set (rmatch ifCheckRegex st)"
proof -
  let ?IF = "ilit (str ''IF'')" and ?WS = "Plus (Cls space)" and ?NOT = "ilit (str ''NOT'')"
  let ?EX = "ilit (str ''EXISTS'')"
  from assms have "st'' \<in> set (rmatch (Seq ?IF (Seq ?WS (Seq ?NOT (Seq ?WS (Seq ?EX Eps))))) st)"
    by (simp only: ifNotExistsRegex_def seqs.simps)
  then obtain s1 s2 s3 s4 where s: "s1 \<in> set (rmatch ?IF st)" "s2 \<in> set (rmatch ?WS s1)"
    "s3 \<in> set (rmatch ?NOT s2)" "s4 \<in> set (rmatch ?WS s3)"
    "st'' \<in> set (rmatch (Seq ?EX Eps) s4)"
    unfolding Seq_iff[of _ ?IF] Seq_iff[of _ ?WS] Seq_iff[of _ ?NOT] by blast
  from NOT_consumes[OF s(3,4)] s(1,2,5)
  have "st'' \<in> set (rmatch (Seq ?IF (Seq ?WS
          (Seq (Opt (Seq ?NOT (Seq ?WS Eps))) (Seq ?EX Eps)))) st)"
    unfolding Seq_iff[of _ ?IF] Seq_iff[of _ ?WS] Seq_iff[of _ "Opt _"] by blast
  then show ?thesis by (simp only: ifCheckRegex_def seqs.simps)
qed

lemma ifExists_ifCheck:
  assumes "st'' \<in> set (rmatch (seqs [ilit (str ''IF''), Plus (Cls space),
                                       ilit (str ''EXISTS'')]) st)"
  shows "st'' \<in> set (rmatch ifCheckRegex st)"
proof -
  let ?IF = "ilit (str ''IF'')" and ?WS = "Plus (Cls space)" and ?NOT = "ilit (str ''NOT'')"
  let ?EX = "ilit (str ''EXISTS'')"
  from assms have "st'' \<in> set (rmatch (Seq ?IF (Seq ?WS (Seq ?EX Eps))) st)"
    by (simp only: seqs.simps)
  then obtain s1 s2 where s: "s1 \<in> set (rmatch ?IF st)" "s2 \<in> set (rmatch ?WS s1)"
    "st'' \<in> set (rmatch (Seq ?EX Eps) s2)"
    unfolding Seq_iff[of _ ?IF] Seq_iff[of _ ?WS] by blast
  from Opt_skip[of s2 "Seq ?NOT (Seq ?WS Eps)"] s
  have "st'' \<in> set (rmatch (Seq ?IF (Seq ?WS
          (Seq (Opt (Seq ?NOT (Seq ?WS Eps))) (Seq ?EX Eps)))) st)"
    unfolding Seq_iff[of _ ?IF] Seq_iff[of _ ?WS] Seq_iff[of _ "Opt _"] by blast
  then show ?thesis by (simp only: ifCheckRegex_def seqs.simps)
qed


lemma ex_member: "xs \<noteq> [] \<Longrightarrow> \<exists>x. x \<in> set xs"
  by (cases xs) auto

lemma guard_seen:
  assumes m: "st'' \<in> set (rmatch (seqs (LazyStar (Cls dot) # T)) (pos u v))"
    and b: "b = u @ v"
    and imp: "\<And>st. st'' \<in> set (rmatch (seqs T) st) \<Longrightarrow> st'' \<in> set (rmatch ifCheckRegex st)"
  shows "test ifCheckRegex b"
proof -
  from m obtain st2 where 1: "st2 \<in> set (rmatch (LazyStar (Cls dot)) (pos u v))"
    and 2: "st'' \<in> set (rmatch (seqs T) st2)"
    unfolding seqs_Cons_iff by blast
  have "nogroup (LazyStar (Cls dot))" by simp
  from rmatch_pos[OF 1 this] obtain w v' where w: "v = w @ v'" "st2 = pos (u @ w) v'"
    by blast
  from imp[OF 2] w have "st'' \<in> set (rmatch ifCheckRegex (pos (u @ w) v'))" by simp
  moreover have "b = (u @ w) @ v'" using b w by simp
  ultimately show ?thesis by (rule testI[rotated])
qed

lemma no_guard:
  assumes n: "\<not> test ifCheckRegex b" and b: "b = u @ v"
    and imp: "\<And>st st''. st'' \<in> set (rmatch (seqs T) st) \<Longrightarrow> st'' \<in> set (rmatch ifCheckRegex st)"
  shows "rmatch (seqs (LazyStar (Cls dot) # T)) (pos u v) = []"
proof (rule ccontr)
  assume "rmatch (seqs (LazyStar (Cls dot) # T)) (pos u v) \<noteq> []"
  from ex_member[OF this]
  obtain st'' where "st'' \<in> set (rmatch (seqs (LazyStar (Cls dot) # T)) (pos u v))"
    by blast
  from guard_seen[OF this b imp] n show False by blast
qed

lemma front_nogroup:
  "list_all nogroup [ilit a, Plus (Cls space), ilit c, Plus (Cls space)]"
  by simp

lemma create_rule:
  assumes "\<not> test ifCheckRegex b"
  shows "test createPattern b \<longleftrightarrow> test createShape b"
proof -
  let ?front = "[ilit (str ''CREATE''), Plus (Cls space), ilit (str ''TABLE''), Plus (Cls space)]"
  let ?T = "[ilit (str ''IF''), Plus (Cls space), ilit (str ''NOT''), Plus (Cls space),
             ilit (str ''EXISTS'')]"
  let ?G = "Grp 1 (Plus (Cls word))"
  have p: "createPattern = seqs (?front @ [NotAhead (seqs (LazyStar (Cls dot) # ?T)), ?G])"
    by (simp add: createPattern_def)
  have s: "createShape = seqs (?front @ [?G])"
    by (simp add: createShape_def)
  have g: "\<And>u v. b = u @ v \<Longrightarrow> rmatch (seqs (LazyStar (Cls dot) # ?T)) (pos u v) = []"
    by (rule no_guard[OF assms]) (auto intro: ifNotExists_ifCheck simp only: ifNotExistsRegex_def)
  show ?thesis
    unfolding p s
    using lookahead_drop[of ?front _ ?G b] lookahead_add[OF front_nogroup g, where G = ?G]
    by blast
qed


lemma alter_rule:
  assumes "\<not> test ifCheckRegex b"
  shows "test alterPattern b \<longleftrightarrow> test alterShape b"
proof -
  let ?front = "[ilit (str ''ALTER''), Plus (Cls space), ilit (str ''TABLE''), Plus (Cls space)]"
  let ?T = "[ilit (str ''IF''), Plus (Cls space),
             Opt (seqs [ilit (str ''NOT''), Plus (Cls space)]), ilit (str ''EXISTS'')]"
  let ?G = "Grp 1 (Plus (Cls word))"
  have p: "alterPattern = seqs (?front @ [NotAhead (seqs (LazyStar (Cls dot) # ?T)), ?G])"
    by (simp add: alterPattern_def)
  have s: "alterShape = seqs (?front @ [?G])"
    by (simp add: alterShape_def)
  have g: "\<And>u v. b = u @ v \<Longrightarrow> rmatch (seqs (LazyStar (Cls dot) # ?T)) (pos u v) = []"
    by (rule no_guard[OF assms]) (simp_all only: ifCheckRegex_def)
  show ?thesis
    unfolding p s
    using lookahead_drop[of ?front _ ?G b] lookahead_add[OF front_nogroup g, where G = ?G]
    by blast
qed

lemma drop_rule:
  assumes "\<not> test ifCheckRegex b"
  shows "test dropPattern b \<longleftrightarrow> test dropShape b"
proof -
  let ?front = "[ilit (str ''DROP''), Plus (Cls space), ilit (str ''TABLE''), Plus (Cls space)]"
  let ?T = "[ilit (str ''IF''), Plus (Cls space), ilit (str ''EXISTS'')]"
  let ?G = "Grp 1 (Plus (Cls word))"
  have p: "dropPattern = seqs (?front @ [NotAhead (seqs (LazyStar (Cls dot) # ?T)), ?G])"
    by (simp add: dropPattern_def)
  have s: "dropShape = seqs (?front @ [?G])"
    by (simp add: dropShape_def)
  have g: "\<And>u v. b = u @ v \<Longrightarrow> rmatch (seqs (LazyStar (Cls dot) # ?T)) (pos u v) = []"
    by (rule no_guard[OF assms], assumption) (erule ifExists_ifCheck)
  show ?thesis
    unfolding p s
    using lookahead_drop[of ?front _ ?G b] lookahead_add[OF front_nogroup g, where G = ?G]
    by blast
qed

lemma member_nonempty: "x \<in> set xs \<Longrightarrow> xs \<noteq> []"
  by auto

lemma Alt_set: "set (rmatch (Alt a b) st) = set (rmatch a st) \<union> set (rmatch b st)"
  by simp


text \<open>
  The lookahead of the INSERT rule looks for \<^verbatim>\<open>WHERE\<close> or \<^verbatim>\<open>IF\<close>; in a block without
  \<^verbatim>\<open>IF [NOT] EXISTS\<close> only \<^verbatim>\<open>WHERE\<close> can be found.
\<close>

lemma insert_lookahead_split:
  "st'' \<in> set (rmatch (seqs (LazyStar (Cls dot) # Alt W I # R)) st)
     \<longleftrightarrow> st'' \<in> set (rmatch (seqs (LazyStar (Cls dot) # W # R)) st)
       \<or> st'' \<in> set (rmatch (seqs (LazyStar (Cls dot) # I # R)) st)"
  unfolding seqs_Cons_iff Alt_set by blast

lemma insert_rule:
  assumes n: "\<not> test ifCheckRegex b"
  shows "test insertPattern b \<longleftrightarrow> test insertUnguarded b"
proof -
  let ?front = "[ilit (str ''INSERT''), Plus (Cls space), ilit (str ''INTO''), Plus (Cls space)]"
  let ?R = "[Plus (Cls space), ilit (str ''NOT''), Plus (Cls space), ilit (str ''EXISTS'')]"
  let ?W = "ilit (str ''WHERE'')" and ?I = "ilit (str ''IF'')"
  let ?G = "Grp 1 (Plus (Cls word))"
  let ?L = "seqs (LazyStar (Cls dot) # Alt ?W ?I # ?R)"
  let ?L' = "seqs (LazyStar (Cls dot) # ?W # ?R)"
  have p: "insertPattern = seqs (?front @ [NotAhead ?L, ?G])"
    by (simp add: insertPattern_def)
  have s: "insertUnguarded = seqs (?front @ [NotAhead ?L', ?G])"
    by (simp add: insertUnguarded_def)
  have 1: "rmatch ?L' st = []" if "rmatch ?L st = []" for st
  proof (rule ccontr)
    assume "rmatch ?L' st \<noteq> []"
    from ex_member[OF this] obtain st'' where "st'' \<in> set (rmatch ?L' st)" by blast
    then have "st'' \<in> set (rmatch ?L st)"
      by (rule insert_lookahead_split[THEN iffD2, OF disjI1])
    from member_nonempty[OF this] that show False by simp
  qed
  have 2: "rmatch ?L (pos u v) = []" if "b = u @ v" "rmatch ?L' (pos u v) = []" for u v
  proof (rule ccontr)
    assume "rmatch ?L (pos u v) \<noteq> []"
    from ex_member[OF this] obtain st'' where m: "st'' \<in> set (rmatch ?L (pos u v))" by blast
    have "st'' \<notin> set (rmatch ?L' (pos u v))"
      using that(2) member_nonempty[of st'' "rmatch ?L' (pos u v)"] by blast
    with insert_lookahead_split[THEN iffD1, OF m]
    have m: "st'' \<in> set (rmatch (seqs (LazyStar (Cls dot) # ?I # ?R)) (pos u v))"
      by blast
    have "test ifCheckRegex b"
      by (rule guard_seen[OF m that(1)])
         (auto intro: ifNotExists_ifCheck simp only: ifNotExistsRegex_def)
    with n show False by blast
  qed
  have a: "test (seqs (?front @ [NotAhead ?L, ?G])) b
      \<Longrightarrow> test (seqs (?front @ [NotAhead ?L', ?G])) b"
    by (rule lookahead_exchange[OF front_nogroup, where L = ?L and L' = ?L' and G = ?G and b = b])
       (rule 1)
  have c: "test (seqs (?front @ [NotAhead ?L', ?G])) b
      \<Longrightarrow> test (seqs (?front @ [NotAhead ?L, ?G])) b"
    by (rule lookahead_exchange[OF front_nogroup, where L = ?L' and L' = ?L and G = ?G and b = b])
       (rule 2)
  show ?thesis
    unfolding p s using a c by (rule iffI)
qed


lemma rule_messages_distinct:
  "distinct [createMessage, alterMessage, insertMessage, dropMessage]"
  by (simp add: createMessage_def alterMessage_def insertMessage_def dropMessage_def str_def
      warn_def)

lemma rule_message_iff:
  "createMessage \<in> set (riskyLoop block riskyPatterns [])
     \<longleftrightarrow> test createPattern block \<and> \<not> test ifCheckRegex block"
  "alterMessage \<in> set (riskyLoop block riskyPatterns [])
     \<longleftrightarrow> test alterPattern block \<and> \<not> test ifCheckRegex block"
  "insertMessage \<in> set (riskyLoop block riskyPatterns [])
     \<longleftrightarrow> test insertPattern block \<and> \<not> test ifCheckRegex block"
  "dropMessage \<in> set (riskyLoop block riskyPatterns [])
     \<longleftrightarrow> test dropPattern block \<and> \<not> test ifCheckRegex block"
  using rule_messages_distinct by (auto simp: riskyLoop_filter riskyPatterns_def)

lemma ifNotExists_test: "test ifNotExistsRegex block \<Longrightarrow> test ifCheckRegex block"
proof -
  assume "test ifNotExistsRegex block"
  then obtain u v st where "block = u @ v" "st \<in> set (rmatch ifNotExistsRegex (pos u v))"
    by (rule testE)
  then show ?thesis using ifNotExists_ifCheck testI by blast
qed

text \<open>
  C1, as amended. With the wrapper present and \<open>block\<close> the text between the first
  \<^verbatim>\<open>BEGIN\<close> and the first \<^verbatim>\<open>END\<close> after it: the warnings for \<^verbatim>\<open>CREATE TABLE\<close>,
  \<^verbatim>\<open>ALTER TABLE\<close> and \<^verbatim>\<open>DROP TABLE\<close> are emitted exactly when the statement shape occurs
  in the block and no \<^verbatim>\<open>IF [NOT] EXISTS\<close> occurs in it; the warning for \<^verbatim>\<open>INSERT INTO\<close>
  is emitted exactly when the block holds an \<^verbatim>\<open>INSERT INTO\<close> that no
  \<^verbatim>\<open>WHERE NOT EXISTS\<close> follows on its line and no \<^verbatim>\<open>IF [NOT] EXISTS\<close> occurs in the
  block; and a block with an \<^verbatim>\<open>IF NOT EXISTS\<close> gives none of the four warnings.
\<close>

theorem structural_warnings:
  assumes "hasProperWrapper (cleanContent blob)"
    and "block = blockContent (cleanContent blob)"
  shows "(createMessage \<in> set (validateDatabaseMigration blob)
            \<longleftrightarrow> test createShape block \<and> \<not> test ifCheckRegex block)
       \<and> (alterMessage \<in> set (validateDatabaseMigration blob)
            \<longleftrightarrow> test alterShape block \<and> \<not> test ifCheckRegex block)
       \<and> (insertMessage \<in> set (validateDatabaseMigration blob)
            \<longleftrightarrow> test insertUnguarded block \<and> \<not> test ifCheckRegex block)
       \<and> (dropMessage \<in> set (validateDatabaseMigration blob)
            \<longleftrightarrow> test dropShape block \<and> \<not> test ifCheckRegex block)
       \<and> (test ifNotExistsRegex block \<longrightarrow> validateDatabaseMigration blob = [])"
proof -
  have v: "validateDatabaseMigration blob = riskyLoop block riskyPatterns []"
    using assms by (simp add: validateDatabaseMigration_def)
  have "validateDatabaseMigration blob = []" if "test ifNotExistsRegex block"
    using ifNotExists_test[OF that] by (simp add: v riskyLoop_filter)
  then show ?thesis
    unfolding v rule_message_iff
    using create_rule[of block] alter_rule[of block] insert_rule[of block] drop_rule[of block]
    by blast
qed

lemma guarded_insert_facts:
  "hasProperWrapper (cleanContent guarded_insert)"
  "test insertShape (blockContent (cleanContent guarded_insert))"
  "\<not> test ifCheckRegex (blockContent (cleanContent guarded_insert))"
  "validateDatabaseMigration guarded_insert = []"
  by (simp_all add: guarded_insert_def validateDatabaseMigration_def hasProperWrapper_def
      blockContent_def riskyPatterns_def cleanContent_def remove_first_def wrapperRegex_def
      blockRegex_def createPattern_def alterPattern_def insertPattern_def dropPattern_def
      ifCheckRegex_def insertShape_def rx_defs)

text \<open>
  C1, as stated, fails for the \<^verbatim>\<open>INSERT INTO\<close> rule: in \<open>guarded_insert\<close> the wrapper is
  present, the block holds the shape \<^verbatim>\<open>INSERT INTO t\<close> and no \<^verbatim>\<open>IF [NOT] EXISTS\<close>, and
  yet no warning is emitted, because a \<^verbatim>\<open>WHERE NOT EXISTS\<close> follows on the line.
\<close>

theorem insert_where_guard_counterexample:
  "\<not> (hasProperWrapper (cleanContent guarded_insert) \<longrightarrow>
       (insertMessage \<in> set (validateDatabaseMigration guarded_insert)
          \<longleftrightarrow> test insertShape (blockContent (cleanContent guarded_insert))
              \<and> \<not> test ifCheckRegex (blockContent (cleanContent guarded_insert))))"
  by (simp add: guarded_insert_facts)

lemma unguarded_create_clean:
  "cleanContent unguarded_create = str ''DO $$ BEGIN CREATE TABLE orders (id int); END $$;''"
  by (simp add: unguarded_create_def cleanContent_def remove_first_def rx_defs)

lemma unguarded_create_wrapper: "hasProperWrapper (cleanContent unguarded_create)"
  unfolding unguarded_create_clean
  by (simp add: hasProperWrapper_def wrapperRegex_def rx_defs)

lemma unguarded_create_block:
  "blockContent (cleanContent unguarded_create) = str '' CREATE TABLE orders (id int); ''"
  unfolding unguarded_create_clean
  by (simp add: blockContent_def blockRegex_def rx_defs)

lemma unguarded_create_issues: "validateDatabaseMigration unguarded_create = [createMessage]"
  unfolding validateDatabaseMigration_def Let_def
  by (simp add: unguarded_create_wrapper unguarded_create_block)
     (simp add: riskyPatterns_def createPattern_def alterPattern_def insertPattern_def
        dropPattern_def ifCheckRegex_def rx_defs)

theorem structural_warnings_witness:
  "hasProperWrapper (cleanContent unguarded_create)
   \<and> validateDatabaseMigration unguarded_create = [createMessage]
   \<and> test createShape (blockContent (cleanContent unguarded_create))
   \<and> \<not> test ifCheckRegex (blockContent (cleanContent unguarded_create))
   \<and> \<not> test alterShape (blockContent (cleanContent unguarded_create))"
proof -
  let ?b = "blockContent (cleanContent unguarded_create)"
  note t = structural_warnings [OF unguarded_create_wrapper refl]
  have c: "createMessage \<in> set (validateDatabaseMigration unguarded_create)"
    and a: "alterMessage \<notin> set (validateDatabaseMigration unguarded_create)"
    using rule_messages_distinct by (auto simp: unguarded_create_issues)
  from t c have 1: "test createShape ?b \<and> \<not> test ifCheckRegex ?b" by blast
  from t a 1 have "\<not> test alterShape ?b" by blast
  with 1 show ?thesis
    using unguarded_create_wrapper unguarded_create_issues by blast
qed



section \<open>The words of a pattern\<close>

lemma Star_Cls: "rmatch (Star (Cls p)) st = runs p st"
proof -
  obtain pv s g where st: "st = (pv, s, g)" by (cases st) auto
  have "rmatch (Star (Cls p)) (pv, s, g) = runs p (pv, s, g)"
    by (induction s arbitrary: pv) auto
  then show ?thesis by (simp add: st)
qed

lemma Plus_Cls:
  "rmatch (Plus (Cls p)) (pv, s, g)
     = (case s of [] \<Rightarrow> [] | c # cs \<Rightarrow> if p c then runs p (Some c, cs, g) else [])"
  by (simp add: Plus_def Star_Cls del: rmatch.simps(5,6) split: list.splits)

lemma runs_set:
  "set (runs p (pv, s, g)) = {(lastopt pv w, s', g) | w s'. s = w @ s' \<and> list_all p w}"
proof (induction s arbitrary: pv)
  case Nil
  then show ?case by auto
next
  case (Cons c cs)
  show ?case
  proof (intro set_eqI iffI)
    fix x assume "x \<in> set (runs p (pv, c # cs, g))"
    then consider "x = (pv, c # cs, g)" | "p c" "x \<in> set (runs p (Some c, cs, g))"
      by (auto split: if_splits)
    then show "x \<in> {(lastopt pv w, s', g) | w s'. c # cs = w @ s' \<and> list_all p w}"
    proof cases
      case 1
      then show ?thesis by (auto intro!: exI[of _ "[]"])
    next
      case 2
      then obtain w s' where "x = (lastopt (Some c) w, s', g)" "cs = w @ s'" "list_all p w"
        unfolding Cons.IH by blast
      with 2(1) show ?thesis by (auto intro!: exI[of _ "c # w"])
    qed
  next
    fix x assume "x \<in> {(lastopt pv w, s', g) | w s'. c # cs = w @ s' \<and> list_all p w}"
    then obtain w s' where x: "x = (lastopt pv w, s', g)" "c # cs = w @ s'" "list_all p w"
      by blast
    show "x \<in> set (runs p (pv, c # cs, g))"
    proof (cases w)
      case Nil
      with x have "x = (pv, c # cs, g)" by simp
      then show ?thesis by simp
    next
      case (Cons d w')
      with x have "d = c" "cs = w' @ s'" "p c" "list_all p w'" by auto
      then have "(lastopt (Some c) w', s', g) \<in> set (runs p (Some c, cs, g))"
        unfolding Cons.IH by blast
      with x Cons \<open>d = c\<close> \<open>p c\<close> show ?thesis by simp
    qed
  qed
qed



lemma LazyStar_Cls_set:
  "set (rmatch (LazyStar (Cls p)) (pv, s, g)) = set (runs p (pv, s, g))"
  by (induction s arbitrary: pv) auto

lemma rmatch_lang:
  "simple r \<Longrightarrow>
     set (rmatch r (pv, s, g)) = {(lastopt pv w, s', g) | w s'. s = w @ s' \<and> w \<in> lang r}"
proof (induction r arbitrary: pv s g rule: simple.induct)
  case 1
  then show ?case by auto
next
  case (2 p)
  then show ?case by (cases s) auto
next
  case (3 a b)
  then have a: "\<And>pv s g. set (rmatch a (pv, s, g))
        = {(lastopt pv w, s', g) | w s'. s = w @ s' \<and> w \<in> lang a}"
    and b: "\<And>pv s g. set (rmatch b (pv, s, g))
        = {(lastopt pv w, s', g) | w s'. s = w @ s' \<and> w \<in> lang b}"
    by auto
  show ?case
  proof (intro set_eqI iffI)
    fix x assume "x \<in> set (rmatch (Seq a b) (pv, s, g))"
    then obtain st1 where 1: "st1 \<in> set (rmatch a (pv, s, g))" and 2: "x \<in> set (rmatch b st1)"
      by auto
    from 1 obtain u s1 where u: "st1 = (lastopt pv u, s1, g)" "s = u @ s1" "u \<in> lang a"
      unfolding a by blast
    from 2[unfolded u(1)] obtain v s' where v: "x = (lastopt (lastopt pv u) v, s', g)"
      "s1 = v @ s'" "v \<in> lang b" unfolding b by blast
    have "x = (lastopt pv (u @ v), s', g)" "s = (u @ v) @ s'" "u @ v \<in> lang (Seq a b)"
      using u v by auto
    then show "x \<in> {(lastopt pv w, s', g) | w s'. s = w @ s' \<and> w \<in> lang (Seq a b)}"
      by blast
  next
    fix x assume "x \<in> {(lastopt pv w, s', g) | w s'. s = w @ s' \<and> w \<in> lang (Seq a b)}"
    then obtain u v s' where x: "x = (lastopt pv (u @ v), s', g)" "s = (u @ v) @ s'"
      "u \<in> lang a" "v \<in> lang b" by auto
    have 1: "(lastopt pv u, v @ s', g) \<in> set (rmatch a (pv, s, g))"
      unfolding a using x by auto
    have 2: "x \<in> set (rmatch b (lastopt pv u, v @ s', g))"
      unfolding b using x by auto
    from 1 2 show "x \<in> set (rmatch (Seq a b) (pv, s, g))" by auto
  qed
next
  case (4 a b)
  then show ?case by auto
next
  case (5 p)
  show ?case by (simp only: Star_Cls runs_set lang.simps mem_Collect_eq)
next
  case (6 p)
  show ?case by (simp only: LazyStar_Cls_set runs_set lang.simps mem_Collect_eq)
next
  case (7 a)
  then have a: "set (rmatch a (pv, s, g))
        = {(lastopt pv w, s', g) | w s'. s = w @ s' \<and> w \<in> lang a}" by simp
  have "set (rmatch (Opt a) (pv, s, g))
      = {st' \<in> set (rmatch a (pv, s, g)). remaining st' < length s} \<union> {(pv, s, g)}"
    by auto
  also have "\<dots> = {(lastopt pv w, s', g) | w s'. s = w @ s' \<and> w \<in> lang (Opt a)}"
    unfolding a by (auto intro: exI[of _ "[]"])
  finally show ?case .
qed simp_all

text \<open>A simple pattern holds of a text when one of its words occurs in the text.\<close>

lemma test_lang:
  assumes "simple r"
  shows "test r s \<longleftrightarrow> (\<exists>u w v. s = u @ w @ v \<and> w \<in> lang r)"
proof -
  have "rmatch r (lastopt None u, t, Map.empty) \<noteq> [] \<longleftrightarrow> (\<exists>w v. t = w @ v \<and> w \<in> lang r)"
    for u t
  proof -
    have "rmatch r (lastopt None u, t, Map.empty) \<noteq> []
        \<longleftrightarrow> set (rmatch r (lastopt None u, t, Map.empty)) \<noteq> {}" by simp
    also have "\<dots> \<longleftrightarrow> (\<exists>w v. t = w @ v \<and> w \<in> lang r)"
      unfolding rmatch_lang[OF assms] by blast
    finally show ?thesis .
  qed
  then show ?thesis unfolding test_iff by blast
qed

lemma simple_ilit [simp]: "simple (ilit t)"
  by (induction t) (auto simp: ichr_def)

lemma simple_lit [simp]: "simple (lit t)"
  by (induction t) (auto simp: chr_def)

lemma simple_seqs [simp]: "simple (seqs rs) = list_all simple rs"
  by (induction rs) auto

lemma lang_ilit: "lang (ilit t) = {w. map upper w = map upper t}"
proof (induction t)
  case Nil
  then show ?case by simp
next
  case (Cons c t)
  have "{u @ v | u v. u \<in> {[x] | x. upper x = upper c} \<and> v \<in> {w. map upper w = map upper t}}
      = {w. map upper w = map upper (c # t)}"
  proof (intro set_eqI iffI)
    fix w assume "w \<in> {w. map upper w = map upper (c # t)}"
    then obtain x v where "w = x # v" "upper x = upper c" "map upper v = map upper t"
      by (cases w) auto
    then have "w = [x] @ v" "[x] \<in> {[x] | x. upper x = upper c}" by auto
    with \<open>map upper v = map upper t\<close>
    show "w \<in> {u @ v | u v. u \<in> {[x] | x. upper x = upper c}
                                \<and> v \<in> {w. map upper w = map upper t}}"
      by blast
  qed auto
  with Cons show ?case by (simp add: ichr_def)
qed

lemma lang_lit: "lang (lit t) = {t}"
  by (induction t) (auto simp: chr_def)

lemma lang_seqs_ConsI:
  "u \<in> lang a \<Longrightarrow> v \<in> lang (seqs rs) \<Longrightarrow> u @ v \<in> lang (seqs (a # rs))"
  by auto

lemma lang_seqs_ConsE:
  assumes "w \<in> lang (seqs (a # rs))"
  obtains u v where "w = u @ v" and "u \<in> lang a" and "v \<in> lang (seqs rs)"
  using assms by auto

lemma lang_seqs_Nil: "w \<in> lang (seqs []) \<longleftrightarrow> w = []"
  by simp

lemma lang_Star_Cls: "w \<in> lang (Star (Cls p)) \<longleftrightarrow> list_all p w"
  by simp

lemma lang_ilit_iff: "w \<in> lang (ilit t) \<longleftrightarrow> map upper w = map upper t"
  by (simp add: lang_ilit)

lemma lang_lit_iff: "w \<in> lang (lit t) \<longleftrightarrow> w = t"
  by (simp add: lang_lit)

lemma keywords_upper:
  "map upper (str ''DO'') = str ''DO''" "map upper (str ''BEGIN'') = str ''BEGIN''"
  "map upper (str ''END'') = str ''END''"
  by (simp_all add: str_def upper_def)

lemma wrapperRegex_lang:
  "w \<in> lang wrapperRegex \<longleftrightarrow>
     (\<exists>d w1 w2 b inner e w3.
        w = d @ w1 @ str ''$$'' @ w2 @ b @ inner @ e @ w3 @ str ''$$''
        \<and> map upper d = str ''DO'' \<and> list_all space w1 \<and> list_all space w2
        \<and> map upper b = str ''BEGIN'' \<and> map upper e = str ''END'' \<and> list_all space w3)"
proof
  assume "w \<in> lang wrapperRegex"
  then obtain d v1 where 1: "w = d @ v1" "d \<in> lang (ilit (str ''DO''))"
    and r1: "v1 \<in> lang (seqs [Star (Cls space), lit (str ''$$''), Star (Cls space),
           ilit (str ''BEGIN''), Star (Cls anychar), ilit (str ''END''), Star (Cls space),
           lit (str ''$$'')])"
    unfolding wrapperRegex_def by (rule lang_seqs_ConsE)
  from r1 obtain w1 v2 where 2: "v1 = w1 @ v2" "w1 \<in> lang (Star (Cls space))"
    and r2: "v2 \<in> lang (seqs [lit (str ''$$''), Star (Cls space),
           ilit (str ''BEGIN''), Star (Cls anychar), ilit (str ''END''), Star (Cls space),
           lit (str ''$$'')])"
    by (rule lang_seqs_ConsE)
  from r2 obtain x1 v3 where 3: "v2 = x1 @ v3" "x1 \<in> lang (lit (str ''$$''))"
    and r3: "v3 \<in> lang (seqs [Star (Cls space),
           ilit (str ''BEGIN''), Star (Cls anychar), ilit (str ''END''), Star (Cls space),
           lit (str ''$$'')])"
    by (rule lang_seqs_ConsE)
  from r3 obtain w2 v4 where 4: "v3 = w2 @ v4" "w2 \<in> lang (Star (Cls space))"
    and r4: "v4 \<in> lang (seqs [ilit (str ''BEGIN''), Star (Cls anychar), ilit (str ''END''),
           Star (Cls space), lit (str ''$$'')])"
    by (rule lang_seqs_ConsE)
  from r4 obtain b v5 where 5: "v4 = b @ v5" "b \<in> lang (ilit (str ''BEGIN''))"
    and r5: "v5 \<in> lang (seqs [Star (Cls anychar), ilit (str ''END''),
           Star (Cls space), lit (str ''$$'')])"
    by (rule lang_seqs_ConsE)
  from r5 obtain inner v6 where 6: "v5 = inner @ v6"
    and r6: "v6 \<in> lang (seqs [ilit (str ''END''), Star (Cls space), lit (str ''$$'')])"
    by (rule lang_seqs_ConsE)
  from r6 obtain e v7 where 7: "v6 = e @ v7" "e \<in> lang (ilit (str ''END''))"
    and r7: "v7 \<in> lang (seqs [Star (Cls space), lit (str ''$$'')])"
    by (rule lang_seqs_ConsE)
  from r7 obtain w3 v8 where 8: "v7 = w3 @ v8" "w3 \<in> lang (Star (Cls space))"
    and r8: "v8 \<in> lang (seqs [lit (str ''$$'')])"
    by (rule lang_seqs_ConsE)
  from r8 obtain x2 v9 where 9: "v8 = x2 @ v9" "x2 \<in> lang (lit (str ''$$''))"
    and r9: "v9 \<in> lang (seqs [])"
    by (rule lang_seqs_ConsE)
  have "w = d @ w1 @ str ''$$'' @ w2 @ b @ inner @ e @ w3 @ str ''$$''"
    using 1(1) 2(1) 3 4(1) 5(1) 6 7(1) 8(1) 9 r9
    by (simp only: lang_lit_iff lang_seqs_Nil append_Nil2)
  moreover have "map upper d = str ''DO''" "map upper b = str ''BEGIN''"
    "map upper e = str ''END''"
    using 1(2) 5(2) 7(2) by (simp_all only: lang_ilit_iff keywords_upper)
  moreover have "list_all space w1" "list_all space w2" "list_all space w3"
    using 2(2) 4(2) 8(2) by (simp_all only: lang_Star_Cls)
  ultimately show "\<exists>d w1 w2 b inner e w3.
        w = d @ w1 @ str ''$$'' @ w2 @ b @ inner @ e @ w3 @ str ''$$''
        \<and> map upper d = str ''DO'' \<and> list_all space w1 \<and> list_all space w2
        \<and> map upper b = str ''BEGIN'' \<and> map upper e = str ''END'' \<and> list_all space w3"
    by blast
next
  assume "\<exists>d w1 w2 b inner e w3.
        w = d @ w1 @ str ''$$'' @ w2 @ b @ inner @ e @ w3 @ str ''$$''
        \<and> map upper d = str ''DO'' \<and> list_all space w1 \<and> list_all space w2
        \<and> map upper b = str ''BEGIN'' \<and> map upper e = str ''END'' \<and> list_all space w3"
  then obtain d w1 w2 b inner e w3 where
    w: "w = d @ w1 @ str ''$$'' @ w2 @ b @ inner @ e @ w3 @ str ''$$''"
    and c: "map upper d = str ''DO''" "list_all space w1" "list_all space w2"
      "map upper b = str ''BEGIN''" "map upper e = str ''END''" "list_all space w3"
    by blast
  have k: "d \<in> lang (ilit (str ''DO''))" "b \<in> lang (ilit (str ''BEGIN''))"
    "e \<in> lang (ilit (str ''END''))"
    using c by (simp_all only: lang_ilit_iff keywords_upper)
  have s: "w1 \<in> lang (Star (Cls space))" "w2 \<in> lang (Star (Cls space))"
    "w3 \<in> lang (Star (Cls space))" "inner \<in> lang (Star (Cls anychar))"
    using c by (simp_all add: anychar_def list_all_iff)
  have l: "str ''$$'' \<in> lang (lit (str ''$$''))" by (simp only: lang_lit_iff)
  have "[] \<in> lang (seqs [])" by simp
  from lang_seqs_ConsI[OF l this]
  have "str ''$$'' \<in> lang (seqs [lit (str ''$$'')])" by (simp only: append_Nil2)
  note lang_seqs_ConsI[OF k(1) lang_seqs_ConsI[OF s(1) lang_seqs_ConsI[OF l
       lang_seqs_ConsI[OF s(2) lang_seqs_ConsI[OF k(2) lang_seqs_ConsI[OF s(4)
       lang_seqs_ConsI[OF k(3) lang_seqs_ConsI[OF s(3) this]]]]]]]]
  then show "w \<in> lang wrapperRegex"
    unfolding wrapperRegex_def w .
qed

section \<open>The wrapper block\<close>

text \<open>The wrapper test of the code finds exactly the wrapper blocks.\<close>

lemma wrapperBlockI:
  assumes "s = before @ d @ w1 @ str ''$$'' @ w2 @ b @ inner @ e @ w3 @ str ''$$'' @ after"
   and "map upper d = str ''DO''" "list_all space w1" "list_all space w2"
    "map upper b = str ''BEGIN''" "map upper e = str ''END''" "list_all space w3"
  shows "wrapperBlock s"
  unfolding wrapperBlock_def using assms
  by (rule_tac x = before in exI, rule_tac x = d in exI, rule_tac x = w1 in exI,
      rule_tac x = w2 in exI, rule_tac x = b in exI, rule_tac x = inner in exI,
      rule_tac x = e in exI, rule_tac x = w3 in exI, rule_tac x = after in exI) simp

lemma wrapperBlockE:
  assumes "wrapperBlock s"
  obtains before d w1 w2 b inner e w3 after where
    "s = before @ d @ w1 @ str ''$$'' @ w2 @ b @ inner @ e @ w3 @ str ''$$'' @ after"
    "map upper d = str ''DO''" "list_all space w1" "list_all space w2"
    "map upper b = str ''BEGIN''" "map upper e = str ''END''" "list_all space w3"
  using assms unfolding wrapperBlock_def by (elim exE conjE) (rule that)

lemma wrapperRegex_langE:
  assumes "w \<in> lang wrapperRegex"
  obtains d w1 w2 b inner e w3 where
    "w = d @ w1 @ str ''$$'' @ w2 @ b @ inner @ e @ w3 @ str ''$$''"
    "map upper d = str ''DO''" "list_all space w1" "list_all space w2"
    "map upper b = str ''BEGIN''" "map upper e = str ''END''" "list_all space w3"
  using wrapperRegex_lang[THEN iffD1, OF assms] by (elim exE conjE) (rule that)

lemma wrapperRegex_langI:
  assumes "map upper d = str ''DO''" "list_all space w1" "list_all space w2"
    "map upper b = str ''BEGIN''" "map upper e = str ''END''" "list_all space w3"
  shows "d @ w1 @ str ''$$'' @ w2 @ b @ inner @ e @ w3 @ str ''$$'' \<in> lang wrapperRegex"
  using assms
  by (intro wrapperRegex_lang[THEN iffD2])
     (rule_tac x = d in exI, rule_tac x = w1 in exI,
      rule_tac x = w2 in exI, rule_tac x = b in exI, rule_tac x = inner in exI,
      rule_tac x = e in exI, rule_tac x = w3 in exI, simp)

lemma hasProperWrapper_iff: "hasProperWrapper s \<longleftrightarrow> wrapperBlock s"
proof -
  have "simple wrapperRegex" by (simp add: wrapperRegex_def)
  then have "hasProperWrapper s \<longleftrightarrow> (\<exists>u w v. s = u @ w @ v \<and> w \<in> lang wrapperRegex)"
    unfolding hasProperWrapper_def by (rule test_lang)
  also have "\<dots> \<longleftrightarrow> wrapperBlock s"
  proof
    assume "\<exists>u w v. s = u @ w @ v \<and> w \<in> lang wrapperRegex"
    then obtain u w v where s: "s = u @ w @ v" and l: "w \<in> lang wrapperRegex" by blast
    from l obtain d w1 w2 b inner e w3 where
      w: "w = d @ w1 @ str ''$$'' @ w2 @ b @ inner @ e @ w3 @ str ''$$''"
      and c: "map upper d = str ''DO''" "list_all space w1" "list_all space w2"
      "map upper b = str ''BEGIN''" "map upper e = str ''END''" "list_all space w3"
      by (rule wrapperRegex_langE)
    have "s = u @ d @ w1 @ str ''$$'' @ w2 @ b @ inner @ e @ w3 @ str ''$$'' @ v"
      unfolding s w by simp
    then show "wrapperBlock s" using c by (rule wrapperBlockI)
  next
    assume "wrapperBlock s"
    then obtain u d w1 w2 b inner e w3 v where
      s: "s = u @ d @ w1 @ str ''$$'' @ w2 @ b @ inner @ e @ w3 @ str ''$$'' @ v"
      and c: "map upper d = str ''DO''" "list_all space w1" "list_all space w2"
        "map upper b = str ''BEGIN''" "map upper e = str ''END''" "list_all space w3"
      by (rule wrapperBlockE)
    let ?w = "d @ w1 @ str ''$$'' @ w2 @ b @ inner @ e @ w3 @ str ''$$''"
    have "?w \<in> lang wrapperRegex" using c by (rule wrapperRegex_langI)
    moreover have "s = u @ ?w @ v" using s by simp
    ultimately show "\<exists>u w v. s = u @ w @ v \<and> w \<in> lang wrapperRegex" by blast
  qed
  finally show ?thesis .
qed

lemma exec_Bol_Some: "exec (Seq Bol r) (Some c) s = None"
  by (induction s arbitrary: c) simp_all

lemma exec_Bol_plus:
  "exec (Seq Bol (Seq (chr 43) Eps)) None l
     = (case l of [] \<Rightarrow> None | c # rest \<Rightarrow> if c = 43 then Some (0, [43], Map.empty) else None)"
proof (cases l)
  case Nil
  then show ?thesis by (simp add: chr_def)
next
  case (Cons c rest)
  have "exec (Seq Bol (Seq (chr 43) Eps)) (Some c) rest = None" by (rule exec_Bol_Some)
  then show ?thesis using Cons by (simp add: chr_def del: exec.simps add: exec.simps[of _ None])
qed

lemma remove_first_plus: "remove_first (seqs [Bol, chr 43]) l = stripPlus l"
  by (cases l) (simp_all add: remove_first_def stripPlus_def exec_Bol_plus del: exec.simps)

lemma cleanContent_stripPlus: "cleanContent blob = join_nl (map stripPlus (split_nl blob))"
  unfolding cleanContent_def remove_first_plus ..

section \<open>The matchers as filters\<close>

lemma Plus_Cls_set:
  "set (rmatch (Plus (Cls p)) (pv, s, g))
     = {(lastopt pv w, s', g) | w s'. s = w @ s' \<and> w \<noteq> [] \<and> list_all p w}"
proof (cases s)
  case Nil
  then show ?thesis by (simp add: Plus_Cls)
next
  case (Cons c cs)
  show ?thesis
  proof (cases "p c")
    case False
    have "\<And>w s'. c # cs = w @ s' \<Longrightarrow> w \<noteq> [] \<Longrightarrow> \<not> list_all p w"
      using False by (case_tac w) auto
    with False Cons show ?thesis by (auto simp: Plus_Cls)
  next
    case True
    have "{(lastopt (Some c) w, s', g) | w s'. cs = w @ s' \<and> list_all p w}
        = {(lastopt pv w, s', g) | w s'. c # cs = w @ s' \<and> w \<noteq> [] \<and> list_all p w}"
      (is "?A = ?B")
    proof (intro set_eqI iffI)
      fix x assume "x \<in> ?A"
      then obtain w s' where "x = (lastopt (Some c) w, s', g)" "cs = w @ s'" "list_all p w"
        by blast
      with True show "x \<in> ?B" by (auto intro!: exI[of _ "c # w"])
    next
      fix x assume "x \<in> ?B"
      then obtain w s' where x: "x = (lastopt pv w, s', g)" "c # cs = w @ s'" "w \<noteq> []"
        "list_all p w" by blast
      then obtain w' where "w = c # w'" by (cases w) auto
      with x show "x \<in> ?A" by (auto intro!: exI[of _ w'])
    qed
    with True Cons show ?thesis by (simp add: Plus_Cls runs_set)
  qed
qed

lemma bol_test: "test (Seq Bol r) s \<longleftrightarrow> rmatch r (None, s, Map.empty) \<noteq> []"
proof -
  have "(\<exists>u v. s = u @ v \<and> rmatch (Seq Bol r) (lastopt None u, v, Map.empty) \<noteq> [])
      \<longleftrightarrow> rmatch r (None, s, Map.empty) \<noteq> []"
  proof
    assume "\<exists>u v. s = u @ v \<and> rmatch (Seq Bol r) (lastopt None u, v, Map.empty) \<noteq> []"
    then obtain u v where uv: "s = u @ v"
      "rmatch (Seq Bol r) (lastopt None u, v, Map.empty) \<noteq> []" by blast
    then have "lastopt None u = None" by (auto split: if_splits)
    then have "u = []" by (auto simp: lastopt_def split: if_splits)
    with uv show "rmatch r (None, s, Map.empty) \<noteq> []" by simp
  next
    assume "rmatch r (None, s, Map.empty) \<noteq> []"
    then show "\<exists>u v. s = u @ v \<and> rmatch (Seq Bol r) (lastopt None u, v, Map.empty) \<noteq> []"
      by (intro exI[of _ "[]"] exI[of _ s]) simp
  qed
  then show ?thesis unfolding test_iff .
qed

lemma Seq_nonempty:
  "rmatch (Seq a b) st \<noteq> [] \<longleftrightarrow> (\<exists>st'\<in>set (rmatch a st). rmatch b st' \<noteq> [])"
  by simp

lemma Eol_end:
  "(\<exists>st'\<in>set (rmatch Eol st). rmatch Eps st' \<noteq> []) \<longleftrightarrow> fst (snd st) = []"
  by (cases st) auto

text \<open>\<^verbatim>\<open>/^c+$/\<close> holds of the non-empty texts made of the class \<^verbatim>\<open>c\<close>.\<close>

lemma all_of_class:
  "test (seqs [Bol, Plus (Cls p), Eol]) s \<longleftrightarrow> s \<noteq> [] \<and> list_all p s"
proof -
  have "rmatch (Seq (Plus (Cls p)) (Seq Eol Eps)) (None, s, Map.empty) \<noteq> []
        \<longleftrightarrow> (\<exists>st\<in>set (rmatch (Plus (Cls p)) (None, s, Map.empty)). fst (snd st) = [])"
    by (simp only: Seq_nonempty Eol_end)
  also have "\<dots> \<longleftrightarrow> s \<noteq> [] \<and> list_all p s"
    unfolding Plus_Cls_set by auto
  finally show ?thesis by (simp only: seqs.simps bol_test)
qed

text \<open>\<^verbatim>\<open>/^\d+\.\d+$/\<close> holds of two non-empty runs of digits with a point between them.\<close>

lemma majorMinor_iff:
  "test majorMinorRegex s
     \<longleftrightarrow> (\<exists>a b. s = a @ 46 # b \<and> a \<noteq> [] \<and> list_all digit a \<and> b \<noteq> [] \<and> list_all digit b)"
proof -
  let ?D = "Plus (Cls digit)"
  have "rmatch (Seq ?D (Seq (chr 46) (Seq ?D (Seq Eol Eps)))) (None, s, Map.empty) \<noteq> []
    \<longleftrightarrow> (\<exists>st1\<in>set (rmatch ?D (None, s, Map.empty)).
          \<exists>st2\<in>set (rmatch (chr 46) st1). \<exists>st3\<in>set (rmatch ?D st2). fst (snd st3) = [])"
    by (simp only: Seq_nonempty Eol_end)
  also have "\<dots> \<longleftrightarrow> (\<exists>a b. s = a @ 46 # b \<and> a \<noteq> [] \<and> list_all digit a \<and> b \<noteq> []
        \<and> list_all digit b)"
  proof
    assume "\<exists>st1\<in>set (rmatch ?D (None, s, Map.empty)).
          \<exists>st2\<in>set (rmatch (chr 46) st1). \<exists>st3\<in>set (rmatch ?D st2). fst (snd st3) = []"
    then obtain st1 st2 st3 where 1: "st1 \<in> set (rmatch ?D (None, s, Map.empty))"
      and 2: "st2 \<in> set (rmatch (chr 46) st1)" and 3: "st3 \<in> set (rmatch ?D st2)"
      and 4: "fst (snd st3) = []" by blast
    from 1 obtain a s1 where a: "st1 = (lastopt None a, s1, Map.empty)" "s = a @ s1" "a \<noteq> []"
      "list_all digit a" unfolding Plus_Cls_set by blast
    from 2 a obtain s2 where s2: "s1 = 46 # s2" "st2 = (Some 46, s2, Map.empty)"
      by (auto simp: chr_def split: list.splits if_splits)
    from 3 have "st3 \<in> set (rmatch ?D (Some 46, s2, Map.empty))" by (simp only: s2)
    then obtain b s3 where b: "st3 = (lastopt (Some 46) b, s3, Map.empty)" "s2 = b @ s3"
      "b \<noteq> []" "list_all digit b" unfolding Plus_Cls_set by blast
    from 4 b have "s3 = []" by simp
    with a s2 b show "\<exists>a b. s = a @ 46 # b \<and> a \<noteq> [] \<and> list_all digit a \<and> b \<noteq> []
        \<and> list_all digit b" by auto
  next
    assume "\<exists>a b. s = a @ 46 # b \<and> a \<noteq> [] \<and> list_all digit a \<and> b \<noteq> [] \<and> list_all digit b"
    then obtain a b where ab: "s = a @ 46 # b" "a \<noteq> []" "list_all digit a" "b \<noteq> []"
      "list_all digit b" by blast
    have 1: "(lastopt None a, 46 # b, Map.empty) \<in> set (rmatch ?D (None, s, Map.empty))"
      unfolding Plus_Cls_set using ab by blast
    have 2: "(Some 46, b, Map.empty) \<in> set (rmatch (chr 46) (lastopt None a, 46 # b, Map.empty))"
      by (simp add: chr_def)
    have 3: "(lastopt (Some 46) b, [], Map.empty) \<in> set (rmatch ?D (Some 46, b, Map.empty))"
      unfolding Plus_Cls_set using ab by auto
    from 1 2 3 show "\<exists>st1\<in>set (rmatch ?D (None, s, Map.empty)).
          \<exists>st2\<in>set (rmatch (chr 46) st1). \<exists>st3\<in>set (rmatch ?D st2). fst (snd st3) = []"
      by force
  qed
  finally show ?thesis by (simp only: majorMinorRegex_def seqs.simps bol_test)
qed

lemma nonSpecificTag_iff:
  "nonSpecificTag tag \<longleftrightarrow>
     tag = str ''latest'' \<or> tag = str ''stable'' \<or> tag = str ''rolling'' \<or> tag = str ''alpine''
     \<or> (tag \<noteq> [] \<and> list_all digit tag)
     \<or> (\<exists>a b. tag = a @ 46 # b \<and> a \<noteq> [] \<and> list_all digit a \<and> b \<noteq> [] \<and> list_all digit b)
     \<or> (tag \<noteq> [] \<and> list_all alpha tag)"
  unfolding nonSpecificTag_def digitsRegex_def alphaRegex_def all_of_class majorMinor_iff ..

lemma concat_map_if:
  "concat (map (\<lambda>x. if P x then [f x] else []) xs) = map f (filter P xs)"
  by (induction xs) auto

lemma for_of_filter:
  assumes "\<And>x acc. x \<in> set xs \<Longrightarrow> body x acc = Inr (if P x then acc @ [f x] else acc)"
  shows "for_of body xs acc = Inr (acc @ map f (filter P xs))"
  using assms by (induction xs arbitrary: acc) auto

lemma includes_str_iff: "includes_str s t \<longleftrightarrow> (\<exists>a b. s = a @ t @ b)"
proof (induction s)
  case Nil
  then show ?case by auto
next
  case (Cons c cs)
  have "startsWith (c # cs) t \<longleftrightarrow> (\<exists>b. c # cs = t @ b)"
    unfolding startsWith_def by (metis append_eq_conv_conj append_take_drop_id)
  moreover have "(\<exists>a b. c # cs = a @ t @ b) \<longleftrightarrow> (\<exists>b. c # cs = t @ b) \<or> (\<exists>a b. cs = a @ t @ b)"
  proof
    assume "\<exists>a b. c # cs = a @ t @ b"
    then obtain a b where ab: "c # cs = a @ t @ b" by blast
    show "(\<exists>b. c # cs = t @ b) \<or> (\<exists>a b. cs = a @ t @ b)"
    proof (cases a)
      case Nil
      with ab show ?thesis by auto
    next
      case (Cons d a')
      with ab have "cs = a' @ t @ b" by simp
      then show ?thesis by blast
    qed
  next
    assume "(\<exists>b. c # cs = t @ b) \<or> (\<exists>a b. cs = a @ t @ b)"
    then show "\<exists>a b. c # cs = a @ t @ b"
    proof
      assume "\<exists>b. c # cs = t @ b"
      then show ?thesis by (metis append_Nil)
    next
      assume "\<exists>a b. cs = a @ t @ b"
      then obtain a b where "cs = a @ t @ b" by blast
      then have "c # cs = (c # a) @ t @ b" by simp
      then show ?thesis by blast
    qed
  qed
  ultimately show ?case using Cons.IH by simp
qed

lemma includes_strI: "includes_str (a @ t @ b) t"
  unfolding includes_str_iff by blast

lemma validateNodePackage_eq:
  "validateNodePackage blob =
     Inr (map (\<lambda>(m, g). nodeMessage (tpl (g 1)) (tpl (g 2)))
       (filter (\<lambda>(m, g). startsWith (tpl (g 2)) (str ''^'') \<or> startsWith (tpl (g 2)) (str ''~'')
                  \<or> tpl (g 2) = str ''*'')
          (matchAll packageRegex None blob)))"
proof -
  have h: "g 2 \<noteq> None" if "(m, g) \<in> set (matchAll packageRegex None blob)" for m g
    using that by (rule matchAll_sets_group) (simp add: packageRegex_def)
  show ?thesis
    unfolding validateNodePackage_def
    by (intro for_of_filter[where acc = "[]", simplified])
       (auto simp del: matchAll.simps dest!: h split: if_splits)
qed

lemma validatePythonPackage_eq:
  "validatePythonPackage blob =
     Inr (map (\<lambda>(m, g). pythonMessage (tpl (g 1)) (orElse (g 2) (str ''unspecified'')))
       (filter (\<lambda>(m, g). case g 2 of None \<Rightarrow> True
                  | Some version \<Rightarrow> version = [] \<or> includes_str version (str ''~='')
                      \<or> includes_str version (str ''>'') \<or> includes_str version (str ''<''))
          (matchAll requirementRegex None blob)))"
  unfolding validatePythonPackage_def
  by (intro for_of_filter[where acc = "[]", simplified]) (auto simp del: matchAll.simps split: if_splits option.splits)

lemma validateRubyPackage_eq:
  "validateRubyPackage blob =
     Inr (map (\<lambda>(m, g). rubyMessage (tpl (g 1)) (tpl (g 2)))
       (filter (\<lambda>(m, g). includes_str (tpl (g 2)) (str ''~>'') \<or> includes_str (tpl (g 2)) (str ''>'')
                  \<or> includes_str (tpl (g 2)) (str ''<''))
          (matchAll gemRegex None blob)))"
proof -
  have h: "g 2 \<noteq> None" if "(m, g) \<in> set (matchAll gemRegex None blob)" for m g
    using that by (rule matchAll_sets_group) (simp add: gemRegex_def)
  show ?thesis
    unfolding validateRubyPackage_def
    by (intro for_of_filter[where acc = "[]", simplified])
       (auto simp del: matchAll.simps dest!: h split: if_splits)
qed

lemma gradleLoop_eq:
  "gradleLoop (matchAll gradleRegex None blob) acc =
     Inr (acc @ map (\<lambda>(m, g). gradleMessage (tpl (g 1)) (tpl (g 2)) (tpl (g 3)))
       (filter (\<lambda>(m, g). includes_str (tpl (g 3)) (str ''+'') \<or> endsWith (tpl (g 3)) (str ''.+'')
                  \<or> includes_str (tpl (g 3)) (str ''latest''))
          (matchAll gradleRegex None blob)))"
proof -
  have h: "g 3 \<noteq> None" if "(m, g) \<in> set (matchAll gradleRegex None blob)" for m g
    using that by (rule matchAll_sets_group) (simp add: gradleRegex_def)
  show ?thesis
    unfolding gradleLoop_def
    by (intro for_of_filter) (auto simp del: matchAll.simps dest!: h split: if_splits)
qed

lemma mavenLoop_eq:
  "mavenLoop (matchAll mavenRegex None blob) acc =
     Inr (acc @ map (\<lambda>(m, g). mavenMessage (tpl (g 1)))
       (filter (\<lambda>(m, g). includes_str (tpl (g 1)) (str ''SNAPSHOT'')
                  \<or> includes_str (tpl (g 1)) (str ''RELEASE'')
                  \<or> includes_str (tpl (g 1)) (str ''LATEST''))
          (matchAll mavenRegex None blob)))"
proof -
  have "sets_group mavenRegex 1"
    by (simp add: mavenRegex_def str_def)
  then have h: "g 1 \<noteq> None" if "(m, g) \<in> set (matchAll mavenRegex None blob)" for m g
    using that matchAll_sets_group by blast
  show ?thesis
    unfolding mavenLoop_def
    by (intro for_of_filter) (auto simp del: matchAll.simps dest!: h split: if_splits)
qed

lemma validateJavaPackage_eq:
  "validateJavaPackage blob =
     Inr (map (\<lambda>(m, g). gradleMessage (tpl (g 1)) (tpl (g 2)) (tpl (g 3)))
            (filter (\<lambda>(m, g). includes_str (tpl (g 3)) (str ''+'')
                       \<or> endsWith (tpl (g 3)) (str ''.+'')
                       \<or> includes_str (tpl (g 3)) (str ''latest''))
               (matchAll gradleRegex None blob))
          @ map (\<lambda>(m, g). mavenMessage (tpl (g 1)))
            (filter (\<lambda>(m, g). includes_str (tpl (g 1)) (str ''SNAPSHOT'')
                       \<or> includes_str (tpl (g 1)) (str ''RELEASE'')
                       \<or> includes_str (tpl (g 1)) (str ''LATEST''))
               (matchAll mavenRegex None blob)))"
  unfolding validateJavaPackage_def Let_def gradleLoop_eq
  by (simp add: mavenLoop_eq del: matchAll.simps)

lemma validateKubernetesManifest_eq:
  "validateKubernetesManifest blob =
     Inr (map (\<lambda>(m, g). k8sMessage (tpl (g 1)) (orElse (g 2) (str ''latest'')))
       (filter (\<lambda>(m, g). looseTag (g 2)) (matchAll k8sImageRegex None blob)))"
  unfolding validateKubernetesManifest_def
  by (intro for_of_filter[where acc = "[]", simplified]) (auto simp del: matchAll.simps split: if_splits option.splits)

lemma validateDockerCompose_eq:
  "validateDockerCompose blob =
     Inr (map (\<lambda>(m, g). composeMessage (tpl (g 1)) (orElse (g 2) (str ''latest'')))
       (filter (\<lambda>(m, g). looseTag (g 2)) (matchAll composeImageRegex None blob)))"
  unfolding validateDockerCompose_def
  by (intro for_of_filter[where acc = "[]", simplified]) (auto simp del: matchAll.simps split: if_splits option.splits)

lemma validateGitHubActions_eq:
  "validateGitHubActions blob =
     Inr (map (\<lambda>(m, g). actionMessage (tpl (g 1)) (tpl (g 2)))
       (filter (\<lambda>(m, g). tpl (g 2) = str ''main'' \<or> tpl (g 2) = str ''master''
                  \<or> \<not> test exactVersionRegex (tpl (g 2)))
          (matchAll actionRegex None blob)))"
proof -
  have "sets_group actionRegex 2"
    by (simp add: actionRegex_def)
  then have h: "g 2 \<noteq> None" if "(m, g) \<in> set (matchAll actionRegex None blob)" for m g
    using that matchAll_sets_group by blast
  show ?thesis
    unfolding validateGitHubActions_def
    by (intro for_of_filter[where acc = "[]", simplified])
       (auto simp del: matchAll.simps dest!: h split: if_splits)
qed




lemma PlusE:
  assumes "st' \<in> set (rmatch (Plus (Cls p)) (pv, s, g))"
  obtains w s1 where "s = w @ s1" and "w \<noteq> []" and "list_all p w"
    and "st' = (lastopt pv w, s1, g)"
  using assms unfolding Plus_Cls_set by blast

lemma GrpPlusE:
  assumes "st' \<in> set (rmatch (Grp k (Plus (Cls p))) (pv, s, g))"
  obtains w s1 where "s = w @ s1" and "w \<noteq> []" and "list_all p w"
    and "st' = (lastopt pv w, s1, g(k \<mapsto> w))"
proof -
  from assms obtain pv1 s1 g1 where 1: "(pv1, s1, g1) \<in> set (rmatch (Plus (Cls p)) (pv, s, g))"
    and 2: "st' = (pv1, s1, g1(k \<mapsto> take (length s - length s1) s))"
    by auto
  from 1 obtain w s2 where w: "s = w @ s2" "w \<noteq> []" "list_all p w"
    "(pv1, s1, g1) = (lastopt pv w, s2, g)" by (rule PlusE)
  with 2 have "st' = (lastopt pv w, s1, g(k \<mapsto> w))" by simp
  with w that show ?thesis by blast
qed


section \<open>The first match\<close>

lemma first_Eps: "first Eps st st"
  by (simp add: first_def)

lemma first_Seq: "first a st x \<Longrightarrow> first b x y \<Longrightarrow> first (Seq a b) st y"
  by (auto simp: first_def)

lemma first_chr: "first (chr c) (pv, c # s, g) (Some c, s, g)"
  by (simp add: first_def chr_def)

lemma first_Cls: "p c \<Longrightarrow> first (Cls p) (pv, c # s, g) (Some c, s, g)"
  by (simp add: first_def)

lemma first_lit: "first (lit t) (pv, t @ s, g) (lastopt pv t, s, g)"
proof (induction t arbitrary: pv)
  case Nil
  then show ?case by (simp add: first_Eps)
next
  case (Cons c t)
  have "first (chr c) (pv, c # t @ s, g) (Some c, t @ s, g)" by (rule first_chr)
  from first_Seq[OF this Cons] show ?case by simp
qed





lemma first_Opt_take:
  "first a (pv, s, g) (pv', s', g') \<Longrightarrow> length s' < length s
   \<Longrightarrow> first (Opt a) (pv, s, g) (pv', s', g')"
  by (auto simp: first_def)

lemma first_Opt_skip: "rmatch a st = [] \<Longrightarrow> first (Opt a) st st"
  by (simp add: first_def)





text \<open>
  C2. Strip a leading \<^verbatim>\<open>+\<close> from each line of the blob. When the result holds no wrapper
  block, the checker returns the missing-wrapper warning and nothing else, so none of the
  four rule warnings; when it holds one, the missing-wrapper warning is not returned, and
  what is returned are rule warnings.
\<close>

theorem missing_wrapper_only:
  "(\<not> wrapperBlock (join_nl (map stripPlus (split_nl blob)))
      \<longrightarrow> validateDatabaseMigration blob = [wrapperMessage])
   \<and> (wrapperBlock (join_nl (map stripPlus (split_nl blob)))
      \<longrightarrow> wrapperMessage \<notin> set (validateDatabaseMigration blob)
        \<and> set (validateDatabaseMigration blob)
            \<subseteq> {createMessage, alterMessage, insertMessage, dropMessage})
   \<and> wrapperMessage \<notin> {createMessage, alterMessage, insertMessage, dropMessage}"
proof -
  have eq: "hasProperWrapper (cleanContent blob)
      \<longleftrightarrow> wrapperBlock (join_nl (map stripPlus (split_nl blob)))"
    unfolding hasProperWrapper_iff cleanContent_stripPlus ..
  show ?thesis
    using riskyLoop_messages[of "blockContent (cleanContent blob)"] wrapperMessage_distinct
    unfolding eq[symmetric]
    by (auto simp: validateDatabaseMigration_def Let_def)
qed

theorem missing_wrapper_only_witness:
  "validateDatabaseMigration (str ''+CREATE TABLE a (id int);'') = [wrapperMessage]
   \<and> \<not> wrapperBlock (str ''CREATE TABLE a (id int);'')
   \<and> wrapperBlock (str ''DO'' @ 10 # str ''$$ BEGIN END $$;'')
   \<and> \<not> wrapperBlock split_wrapper
   \<and> wrapperMessage \<notin> set (validateDatabaseMigration split_wrapper)"
proof -
  have c1: "join_nl (map stripPlus (split_nl (str ''+CREATE TABLE a (id int);'')))
      = str ''CREATE TABLE a (id int);''"
    by (simp add: stripPlus_def str_def)
  have c2: "join_nl (map stripPlus (split_nl split_wrapper))
      = str ''DO'' @ 10 # str ''$$ BEGIN END $$;''"
    by (simp add: stripPlus_def str_def split_wrapper_def)
  have 1: "\<not> wrapperBlock (str ''CREATE TABLE a (id int);'')"
    unfolding hasProperWrapper_iff[symmetric]
    by (simp add: hasProperWrapper_def wrapperRegex_def rx_defs)
  have 2: "wrapperBlock (str ''DO'' @ 10 # str ''$$ BEGIN END $$;'')"
    unfolding hasProperWrapper_iff[symmetric]
    by (simp add: hasProperWrapper_def wrapperRegex_def rx_defs)
  have 3: "\<not> wrapperBlock split_wrapper"
    unfolding hasProperWrapper_iff[symmetric]
    by (simp add: hasProperWrapper_def wrapperRegex_def rx_defs split_wrapper_def)
  have a: "validateDatabaseMigration (str ''+CREATE TABLE a (id int);'') = [wrapperMessage]"
    using missing_wrapper_only [of "str ''+CREATE TABLE a (id int);''"] 1 unfolding c1 by blast
  have b: "wrapperMessage \<notin> set (validateDatabaseMigration split_wrapper)"
    using missing_wrapper_only [of split_wrapper] 2 unfolding c2 by blast
  from a b 1 2 3 show ?thesis by blast
qed

section \<open>Dispatch by pattern\<close>

lemma example_patterns:
  "String_match compile (str ''k8s/*.y{a,}ml'') (str ''k8s/deployment.yaml'') = Inr False"
  "String_match compile (str ''**/Dockerfile'') (str ''app/Dockerfile'') = Inr False"
  by (simp_all add: String_match_def RegExp_new_def syntaxCharacter_def rx_defs)

lemma stray_applies:
  "map (\<lambda>v. applies compile v (str ''docker'')) (Object_values (CONTAINER_VALIDATORS module_init))
     = [Inr True, Inr False, Inr True]"
  by (simp add: module_init_def Object_values_def applies_def endsWith_def
      String_match_def RegExp_new_def syntaxCharacter_def rx_defs)

lemma stray_extensions:
  "list_all (\<lambda>v. \<not> list_ex (endsWith (str ''docker'')) (extensions v))
     (Object_values (CONTAINER_VALIDATORS module_init))"
  by (simp add: module_init_def Object_values_def endsWith_def str_def)

lemma stray_diff_issues:
  "fst (analyzeCode compile module_init stray_diff)
     = Inr [nonSpecificMessage (str ''node'') (str ''latest'')]"
  by (simp add: analyzeCode_def stray_diff_def analyzeFile_def module_init_def Object_values_def
      validatorLoop_def applies_def endsWith_def diffContent_def isMigration_def
      migrationRegex_def startsWith_def RegExp_new_def String_match_def syntaxCharacter_def
      validateDockerfile_def fromLines_def fromLineRegex_def fromRegex_def cleanContent_def
      validateDockerCompose_def composeImageRegex_def
      remove_first_def nonSpecificTag_def rx_defs)

lemma plus_diff_throws:
  assumes "compile (str ''c++/Dockerfile'') = Inl SyntaxError"
  shows "fst (analyzeCode compile module_init plus_diff) = Inl SyntaxError"
  using assms
  by (simp add: analyzeCode_def plus_diff_def analyzeFile_def module_init_def Object_values_def
      validatorLoop_def applies_def endsWith_def
      RegExp_new_def String_match_def syntaxCharacter_def str_def)

text \<open>
  C3. The dispatcher does not match the path against the patterns as globs: it searches
  each pattern for the path, read as a regular expression. The pattern \<^verbatim>\<open>k8s/*.y{a,}ml\<close>
  does not match the path \<^verbatim>\<open>k8s/deployment.yaml\<close>, nor \<^verbatim>\<open>**/Dockerfile\<close> the path
  \<^verbatim>\<open>app/Dockerfile\<close>. For the path \<^verbatim>\<open>docker\<close>, of which no extension of a container validator
  is a suffix, the Dockerfile and the compose validator apply, because the word occurs in
  one of their patterns, and the analysis of a file of that name returns the warning of the
  Dockerfile matcher. For the path \<^verbatim>\<open>c++/Dockerfile\<close>, which is no regular expression, the
  analysis ends with the SyntaxError.
\<close>

theorem dispatch_searches_patterns:
  "String_match compile (str ''k8s/*.y{a,}ml'') (str ''k8s/deployment.yaml'') = Inr False
   \<and> String_match compile (str ''**/Dockerfile'') (str ''app/Dockerfile'') = Inr False
   \<and> list_all (\<lambda>v. \<not> list_ex (endsWith (str ''docker'')) (extensions v))
        (Object_values (CONTAINER_VALIDATORS module_init))
   \<and> map (\<lambda>v. applies compile v (str ''docker''))
        (Object_values (CONTAINER_VALIDATORS module_init)) = [Inr True, Inr False, Inr True]
   \<and> fst (analyzeCode compile module_init stray_diff)
       = Inr [nonSpecificMessage (str ''node'') (str ''latest'')]
   \<and> (compile (str ''c++/Dockerfile'') = Inl SyntaxError
      \<longrightarrow> fst (analyzeCode compile module_init plus_diff) = Inl SyntaxError)"
  by (intro conjI impI example_patterns stray_extensions stray_applies stray_diff_issues
      plus_diff_throws)

theorem dispatch_searches_patterns_witness:
  "fst (analyzeCode reject module_init plus_diff) = Inl SyntaxError
   \<and> fst (analyzeCode reject module_init stray_diff)
       = Inr [nonSpecificMessage (str ''node'') (str ''latest'')]"
proof -
  have "reject (str ''c++/Dockerfile'') = Inl SyntaxError" by (simp add: reject_def)
  with dispatch_searches_patterns [of reject] show ?thesis by blast
qed

section \<open>One warning for each failing match\<close>

lemma validateDockerfile_eq:
  "validateDockerfile blob = Inr (concat (map dockerWarning (fromLines (cleanContent blob))))"
  unfolding validateDockerfile_def
  by (intro for_of_pushes[where acc = "[]", simplified])
     (auto simp: dockerWarning_def simp del: exec.simps split: option.splits)

lemma dockerWarning_one: "length (dockerWarning fromLine) \<le> 1"
  by (auto simp: dockerWarning_def simp del: exec.simps split: option.splits)

lemma messages_name:
  "includes_str (nodeMessage name version) name" "includes_str (nodeMessage name version) version"
  "includes_str (pythonMessage name version) name"
  "includes_str (pythonMessage name version) version"
  "includes_str (rubyMessage name version) name" "includes_str (rubyMessage name version) version"
  "includes_str (gradleMessage grp artifact version) grp"
  "includes_str (gradleMessage grp artifact version) artifact"
  "includes_str (gradleMessage grp artifact version) version"
  "includes_str (mavenMessage version) version"
  "includes_str (k8sMessage img tag) img" "includes_str (k8sMessage img tag) tag"
  "includes_str (composeMessage img tag) img" "includes_str (composeMessage img tag) tag"
  "includes_str (noTagMessage img) img"
  "includes_str (nonSpecificMessage img tag) img" "includes_str (nonSpecificMessage img tag) tag"
  "includes_str (actionMessage action version) action"
  "includes_str (actionMessage action version) version"
  unfolding includes_str_iff nodeMessage_def pythonMessage_def rubyMessage_def gradleMessage_def
    mavenMessage_def k8sMessage_def composeMessage_def noTagMessage_def nonSpecificMessage_def
    actionMessage_def
  by (metis append.assoc)+

lemma gradleRegex_colon:
  assumes "58 \<notin> set s"
  shows "rmatch gradleRegex (pv, s, g) = []"
proof -
  have "rmatch (Seq (chr 58) r) st' = []"
    if "st' \<in> set (rmatch (Grp 1 (Plus (Cls (\<lambda>c. c \<noteq> 58)))) (pv, s, g))" for st' r
  proof -
    from that obtain w s1 where "s = w @ s1" "st' = (lastopt pv w, s1, g(1 \<mapsto> w))"
      by (rule GrpPlusE)
    with assms show ?thesis by (cases s1) (auto simp: chr_def)
  qed
  then show ?thesis
    unfolding gradleRegex_def seqs.simps rmatch.simps(3)[of "Grp 1 (Plus (Cls (\<lambda>c. c \<noteq> 58)))"]
    by (simp del: rmatch.simps)
qed

lemma matchAll_gradle_colon: "58 \<notin> set s \<Longrightarrow> matchAll gradleRegex pv s = []"
proof (induction s arbitrary: pv)
  case Nil
  then show ?case by (simp add: gradleRegex_colon del: rmatch.simps)
next
  case (Cons c cs)
  then show ?case by (simp add: gradleRegex_colon del: rmatch.simps)
qed

lemma maven_pom_gradle: "matchAll gradleRegex None maven_pom = []"
  by (rule matchAll_gradle_colon) (simp add: maven_pom_def str_def)

lemma maven_pom_matches: "map (\<lambda>(m, g). g 1) (matchAll mavenRegex None maven_pom) = [Some (str ''1.0-SNAPSHOT'')]"
  by (simp add: maven_pom_def mavenRegex_def rx_defs)

lemma maven_pom_warnings:
  "warnings (\<lambda>g. includes_str (tpl (g 3)) (str ''+'') \<or> endsWith (tpl (g 3)) (str ''.+'')
                \<or> includes_str (tpl (g 3)) (str ''latest''))
      (\<lambda>g. gradleMessage (tpl (g 1)) (tpl (g 2)) (tpl (g 3))) gradleRegex maven_pom = []"
  "warnings (\<lambda>g. includes_str (tpl (g 1)) (str ''SNAPSHOT'')
                \<or> includes_str (tpl (g 1)) (str ''RELEASE'')
                \<or> includes_str (tpl (g 1)) (str ''LATEST''))
      (\<lambda>g. mavenMessage (tpl (g 1))) mavenRegex maven_pom = [mavenMessage (str ''1.0-SNAPSHOT'')]"
  unfolding warnings_def maven_pom_gradle
  by (simp_all add: maven_pom_def mavenRegex_def startsWith_def rx_defs)

lemma maven_pom_issues:
  "validateJavaPackage maven_pom = Inr [mavenMessage (str ''1.0-SNAPSHOT'')]"
  unfolding validateJavaPackage_eq maven_pom_warnings[unfolded warnings_def] by simp

text \<open>
  C4, as amended. Every matcher returns one warning for each match that fails its policy,
  in the order of the matches, and nothing else: the java matcher the Gradle warnings
  before the Maven warnings, the Dockerfile matcher at most one warning for each
  \<^verbatim>\<open>FROM\<close> line. The warning of the node, ruby, Gradle and GitHub Actions matchers holds the
  name and the version of the match; that of the python, Kubernetes and compose matchers
  the name and the version, with \<^verbatim>\<open>unspecified\<close> or \<^verbatim>\<open>latest\<close> for a version that is absent;
  that of the Dockerfile matcher the image, and the tag when there is one; the Maven
  warning holds the version only.
\<close>

theorem one_warning_per_failing_match:
  "validateNodePackage blob
     = Inr (warnings (\<lambda>g. startsWith (tpl (g 2)) (str ''^'') \<or> startsWith (tpl (g 2)) (str ''~'')
                           \<or> tpl (g 2) = str ''*'')
              (\<lambda>g. nodeMessage (tpl (g 1)) (tpl (g 2))) packageRegex blob)
   \<and> validatePythonPackage blob
     = Inr (warnings (\<lambda>g. case g 2 of None \<Rightarrow> True
                          | Some version \<Rightarrow> version = [] \<or> includes_str version (str ''~='')
                              \<or> includes_str version (str ''>'') \<or> includes_str version (str ''<''))
              (\<lambda>g. pythonMessage (tpl (g 1)) (orElse (g 2) (str ''unspecified'')))
              requirementRegex blob)
   \<and> validateRubyPackage blob
     = Inr (warnings (\<lambda>g. includes_str (tpl (g 2)) (str ''~>'') \<or> includes_str (tpl (g 2)) (str ''>'')
                           \<or> includes_str (tpl (g 2)) (str ''<''))
              (\<lambda>g. rubyMessage (tpl (g 1)) (tpl (g 2))) gemRegex blob)
   \<and> validateJavaPackage blob
     = Inr (warnings (\<lambda>g. includes_str (tpl (g 3)) (str ''+'') \<or> endsWith (tpl (g 3)) (str ''.+'')
                           \<or> includes_str (tpl (g 3)) (str ''latest''))
              (\<lambda>g. gradleMessage (tpl (g 1)) (tpl (g 2)) (tpl (g 3))) gradleRegex blob
            @ warnings (\<lambda>g. includes_str (tpl (g 1)) (str ''SNAPSHOT'')
                           \<or> includes_str (tpl (g 1)) (str ''RELEASE'')
                           \<or> includes_str (tpl (g 1)) (str ''LATEST''))
              (\<lambda>g. mavenMessage (tpl (g 1))) mavenRegex blob)
   \<and> validateKubernetesManifest blob
     = Inr (warnings (\<lambda>g. looseTag (g 2))
              (\<lambda>g. k8sMessage (tpl (g 1)) (orElse (g 2) (str ''latest''))) k8sImageRegex blob)
   \<and> validateDockerCompose blob
     = Inr (warnings (\<lambda>g. looseTag (g 2))
              (\<lambda>g. composeMessage (tpl (g 1)) (orElse (g 2) (str ''latest''))) composeImageRegex blob)
   \<and> validateGitHubActions blob
     = Inr (warnings (\<lambda>g. tpl (g 2) = str ''main'' \<or> tpl (g 2) = str ''master''
                           \<or> \<not> test exactVersionRegex (tpl (g 2)))
              (\<lambda>g. actionMessage (tpl (g 1)) (tpl (g 2))) actionRegex blob)
   \<and> validateDockerfile blob = Inr (concat (map dockerWarning (fromLines (cleanContent blob))))
   \<and> length (dockerWarning fromLine) \<le> 1
   \<and> includes_str (nodeMessage name version) name
   \<and> includes_str (nodeMessage name version) version
   \<and> includes_str (pythonMessage name version) name
   \<and> includes_str (pythonMessage name version) version
   \<and> includes_str (rubyMessage name version) name
   \<and> includes_str (rubyMessage name version) version
   \<and> includes_str (gradleMessage grp name version) grp
   \<and> includes_str (gradleMessage grp name version) name
   \<and> includes_str (gradleMessage grp name version) version
   \<and> includes_str (mavenMessage version) version
   \<and> includes_str (k8sMessage name version) name
   \<and> includes_str (k8sMessage name version) version
   \<and> includes_str (composeMessage name version) name
   \<and> includes_str (composeMessage name version) version
   \<and> includes_str (noTagMessage name) name
   \<and> includes_str (nonSpecificMessage name version) name
   \<and> includes_str (nonSpecificMessage name version) version
   \<and> includes_str (actionMessage name version) name
   \<and> includes_str (actionMessage name version) version"
  unfolding warnings_def
  by (intro conjI validateNodePackage_eq validatePythonPackage_eq validateRubyPackage_eq
      validateJavaPackage_eq validateKubernetesManifest_eq validateDockerCompose_eq
      validateGitHubActions_eq validateDockerfile_eq dockerWarning_one messages_name)

theorem one_warning_per_failing_match_witness:
  "validateJavaPackage maven_pom = Inr [mavenMessage (str ''1.0-SNAPSHOT'')]
   \<and> includes_str (mavenMessage (str ''1.0-SNAPSHOT'')) (str ''1.0-SNAPSHOT'')
   \<and> validateJavaPackage gradle_build
       = Inr [gradleMessage (str ''com.acme'') (str ''demo'') (str ''1.+'')]
   \<and> includes_str (gradleMessage (str ''com.acme'') (str ''demo'') (str ''1.+'')) (str ''demo'')"
proof -
  note a = one_warning_per_failing_match [of maven_pom "[]" "str ''demo''" "str ''1.0-SNAPSHOT''"
      "str ''com.acme''"]
  note b = one_warning_per_failing_match [of gradle_build "[]" "str ''demo''" "str ''1.+''"
      "str ''com.acme''"]
  have g: "warnings (\<lambda>g. includes_str (tpl (g 3)) (str ''+'') \<or> endsWith (tpl (g 3)) (str ''.+'')
                \<or> includes_str (tpl (g 3)) (str ''latest''))
      (\<lambda>g. gradleMessage (tpl (g 1)) (tpl (g 2)) (tpl (g 3))) gradleRegex gradle_build
      = [gradleMessage (str ''com.acme'') (str ''demo'') (str ''1.+'')]"
    "warnings (\<lambda>g. includes_str (tpl (g 1)) (str ''SNAPSHOT'')
                \<or> includes_str (tpl (g 1)) (str ''RELEASE'')
                \<or> includes_str (tpl (g 1)) (str ''LATEST''))
      (\<lambda>g. mavenMessage (tpl (g 1))) mavenRegex gradle_build = []"
    by (simp_all add: warnings_def gradle_build_def gradleRegex_def mavenRegex_def startsWith_def
        endsWith_def rx_defs)
  have 1: "validateJavaPackage maven_pom = Inr [mavenMessage (str ''1.0-SNAPSHOT'')]"
    using a unfolding maven_pom_warnings by simp
  have 2: "includes_str (mavenMessage (str ''1.0-SNAPSHOT'')) (str ''1.0-SNAPSHOT'')"
    using a by blast
  have 3: "validateJavaPackage gradle_build
       = Inr [gradleMessage (str ''com.acme'') (str ''demo'') (str ''1.+'')]"
    using b unfolding g by simp
  have 4: "includes_str (gradleMessage (str ''com.acme'') (str ''demo'') (str ''1.+'')) (str ''demo'')"
    using b by blast
  from 1 2 3 4 show ?thesis by blast
qed

text \<open>
  C4, as stated, fails for the Maven branch: for the pom \<open>maven_pom\<close> of the artifact
  \<^verbatim>\<open>demo\<close> the warning names the version and not the artifact.
\<close>

theorem maven_names_no_package_counterexample:
  "validateJavaPackage maven_pom = Inr [mavenMessage (str ''1.0-SNAPSHOT'')]
   \<and> \<not> includes_str (mavenMessage (str ''1.0-SNAPSHOT'')) (str ''demo'')"
  by (simp add: maven_pom_issues) (simp add: mavenMessage_def startsWith_def str_def warn_def)


section \<open>The node matcher\<close>













end
